theory Spec2Isabelle
  imports Main "HOL-Library.Word"
begin

section \<open>Solidity values and checked arithmetic\<close>

text \<open>
  The contract \<open>MinesGame\<close> (\<open>contracts/contracts/MinesGame.sol\<close>, \<open>pragma solidity ^0.8.19\<close>)
  computes on \<open>uint8\<close> and \<open>uint256\<close>. From Solidity 0.8 on, \<open>+\<close>, \<open>-\<close> and \<open>*\<close> are
  checked: a result outside the operands' type aborts the call with \<open>Panic(0x11)\<close>, an
  array index outside the array with \<open>Panic(0x32)\<close>, a failed \<open>require\<close> with
  \<open>Error(reason)\<close>. An aborted call leaves no trace in the contract's storage.
\<close>

type_synonym uint8 = "8 word"
type_synonym uint256 = "256 word"
type_synonym address = "160 word"

datatype panic = ArithmeticOverflow | IndexOutOfBounds

datatype error = Revert string | Panic panic | TransferFailed

definition and_then :: "error + 'a \<Rightarrow> ('a \<Rightarrow> error + 'b) \<Rightarrow> error + 'b" where
  "and_then m f = (case m of Inl e \<Rightarrow> Inl e | Inr v \<Rightarrow> f v)"

definition checked_add :: "'a::len word \<Rightarrow> 'a word \<Rightarrow> error + 'a word" where
  "checked_add a b =
     (if unat a + unat b < 2 ^ LENGTH('a) then Inr (a + b) else Inl (Panic ArithmeticOverflow))"

definition checked_sub :: "'a::len word \<Rightarrow> 'a word \<Rightarrow> error + 'a word" where
  "checked_sub a b = (if b \<le> a then Inr (a - b) else Inl (Panic ArithmeticOverflow))"

definition checked_mul :: "'a::len word \<Rightarrow> 'a word \<Rightarrow> error + 'a word" where
  "checked_mul a b =
     (if unat a * unat b < 2 ^ LENGTH('a) then Inr (a * b) else Inl (Panic ArithmeticOverflow))"

text \<open>
  A loop counter below its bound is not the largest value of its type, so the checked
  \<open>i++\<close> of a \<^verbatim>\<open>for (i = 0; i < n; i++)\<close> loop never aborts and adds one.
\<close>

lemma unat_succ_less: "j < i \<Longrightarrow> unat (j + 1) = Suc (unat j)" for i j :: "'a::len word"
proof -
  assume "j < i"
  then have a: "unat j < unat i" by (simp add: word_less_nat_alt)
  have b: "unat i < 2 ^ LENGTH('a)" by (rule unsigned_less)
  from a b have "Suc (unat j) < 2 ^ LENGTH('a)" by linarith
  then have "unat j + unat (1::'a word) < 2 ^ LENGTH('a)" by simp
  then have "unat (j + 1) = unat j + unat (1::'a word)" by (simp only: unat_add_lem)
  then show ?thesis by simp
qed

section \<open>The payout function\<close>

text \<open>
  \<^verbatim>\<open>uint256 multiplier = (25 - totalMines) * revealedSafeTiles / 25;\<close>
  Both operands of \<open>-\<close> and of \<open>*\<close> are \<open>uint8\<close> (the literal \<open>25\<close> takes the type of the
  other operand), so the whole right-hand side is computed and checked in \<open>uint8\<close> and only
  its value is widened to \<open>uint256\<close>. The product \<open>betAmount * multiplier\<close> is checked in
  \<open>uint256\<close>.
\<close>

definition calculateWinnings :: "uint256 \<Rightarrow> uint8 \<Rightarrow> uint8 \<Rightarrow> error + uint256" where
  "calculateWinnings bet mines safeTiles =
     (if safeTiles = 0 then Inr 0
      else
        and_then (checked_sub (25 :: uint8) mines) (\<lambda>d.
        and_then (checked_mul d safeTiles) (\<lambda>p.
        and_then (checked_mul bet (ucast (p div 25) :: uint256)) (\<lambda>q.
        Inr (q div 100)))))"

text \<open>
  The payout as the specification words it, on unbounded numbers: nothing when no safe
  tile is revealed, otherwise \<open>floor(betAmount * multiplier / 100)\<close> with
  \<open>multiplier = floor((25 - totalMines) * revealedSafeTiles / 25)\<close>.
\<close>

definition payout_spec :: "nat \<Rightarrow> nat \<Rightarrow> nat \<Rightarrow> nat" where
  "payout_spec bet mines safeTiles =
     (if safeTiles = 0 then 0 else bet * ((25 - mines) * safeTiles div 25) div 100)"

section \<open>The ledger\<close>

text \<open>
  \<^verbatim>\<open>struct Game\<close>, \<^verbatim>\<open>mapping(address => Game) public games\<close> and
  \<^verbatim>\<open>uint256 public sharedPoolBalance\<close>. A Solidity mapping holds a value at every key: the
  zero value (\<open>no_game\<close>) where nothing was stored. The two dynamic arrays are lists.
\<close>

record Game =
  player :: address
  betAmount :: uint256
  totalMines :: uint8
  revealedSafeTiles :: uint8
  revealedTiles :: "bool list"
  mineLocations :: "uint8 list"
  isActive :: bool

datatype event =
    GameStarted address uint256 uint8
  | TileRevealed address uint8 bool
  | GameWon address uint256
  | GameLost address

text \<open>
  Beside the two storage variables the state keeps what a call leaves outside the contract:
  the events it emitted and the ether it transferred, newest first.
\<close>

record Contract =
  games :: "address \<Rightarrow> Game"
  sharedPoolBalance :: uint256
  emitted :: "event list"
  transfers :: "(address \<times> uint256) list"

definition no_game :: Game where
  "no_game = \<lparr>player = 0, betAmount = 0, totalMines = 0, revealedSafeTiles = 0,
     revealedTiles = [], mineLocations = [], isActive = False\<rparr>"

definition deployed :: Contract where
  "deployed = \<lparr>games = (\<lambda>_. no_game), sharedPoolBalance = 0, emitted = [], transfers = []\<rparr>"

text \<open>
  A transaction whose call aborts is rolled back by the EVM: the state after it is the
  state before it.
\<close>

definition commit :: "Contract \<Rightarrow> error + Contract \<Rightarrow> Contract" where
  "commit st r = (case r of Inl e \<Rightarrow> st | Inr st' \<Rightarrow> st')"

text \<open>
  \<^verbatim>\<open>payable(msg.sender).transfer(amount)\<close> hands ether to an account outside the contract and
  aborts the call when that fails. Whether it succeeds is decided outside the contract
  (the recipient's code, the contract's ether), so it is the parameter \<open>accepts\<close>.
\<close>

definition transfer ::
  "(address \<Rightarrow> uint256 \<Rightarrow> bool) \<Rightarrow> address \<Rightarrow> uint256 \<Rightarrow> Contract \<Rightarrow> error + Contract" where
  "transfer accepts recipient amount st =
     (if accepts recipient amount then Inr (st\<lparr>transfers := (recipient, amount) # transfers st\<rparr>)
      else Inl TransferFailed)"

section \<open>Mine placement\<close>

text \<open>
  \<^verbatim>\<open>keccak256(abi.encodePacked(block.timestamp, msg.sender, i))\<close> is a builtin of the EVM; the
  model takes it as the parameter \<open>keccak\<close>, a function of the three packed values.

  The inner loop of \<open>startGame\<close>,
  \<^verbatim>\<open>for (uint8 j = 0; j < i; j++) if (mineLocations[j] == mineLocation) { locationValid = false; break; }\<close>
  returns \<open>True\<close> when it ends by \<open>break\<close>. Here \<open>j < i < numberOfMines\<close>, the length of the
  array, so no index is out of range and \<open>j++\<close> stays in \<open>uint8\<close>.
\<close>

type_synonym keccak = "uint256 \<Rightarrow> address \<Rightarrow> uint8 \<Rightarrow> uint256"

function locationTaken :: "uint8 list \<Rightarrow> uint8 \<Rightarrow> uint8 \<Rightarrow> uint8 \<Rightarrow> bool" where
  "locationTaken locs loc i j =
     (if j < i then (if locs ! unat j = loc then True else locationTaken locs loc i (j + 1))
      else False)"
  by pat_completeness auto
termination
  by (relation "measure (\<lambda>(locs, loc, i, j). unat i - unat j)")
     (simp_all add: unat_succ_less word_less_nat_alt)

declare locationTaken.simps [simp del]

text \<open>
  The \<^verbatim>\<open>do { ... } while (!locationValid)\<close> loop. Nothing it reads changes between two
  rounds, and nothing bounds the number of rounds: a run that never leaves the loop is the
  value \<open>None\<close>.
\<close>

partial_function (option) drawLocation ::
  "keccak \<Rightarrow> uint256 \<Rightarrow> address \<Rightarrow> uint8 list \<Rightarrow> uint8 \<Rightarrow> uint8 option" where
  "drawLocation keccak timestamp msg_sender locs i =
     (if locationTaken locs (ucast (keccak timestamp msg_sender i mod 25)) i 0
      then drawLocation keccak timestamp msg_sender locs i
      else Some (ucast (keccak timestamp msg_sender i mod 25)))"

text \<open>
  The outer loop \<^verbatim>\<open>for (uint8 i = 0; i < numberOfMines; i++)\<close>, from slot \<open>i\<close> on.
\<close>

function placeMines ::
  "keccak \<Rightarrow> uint256 \<Rightarrow> address \<Rightarrow> uint8 \<Rightarrow> uint8 \<Rightarrow> uint8 list \<Rightarrow> uint8 list option" where
  "placeMines keccak timestamp msg_sender numberOfMines i locs =
     (if i < numberOfMines then
        (case drawLocation keccak timestamp msg_sender locs i of
           None \<Rightarrow> None
         | Some loc \<Rightarrow>
             placeMines keccak timestamp msg_sender numberOfMines (i + 1) (locs[unat i := loc]))
      else Some locs)"
  by pat_completeness auto
termination
  by (relation "measure (\<lambda>(keccak, timestamp, msg_sender, numberOfMines, i, locs).
        unat numberOfMines - unat i)")
     (simp_all add: unat_succ_less word_less_nat_alt)

declare placeMines.simps [simp del]

text \<open>
  The value the loop draws for slot \<open>j\<close>:
  \<^verbatim>\<open>uint8(uint256(keccak256(abi.encodePacked(block.timestamp, msg.sender, i))) % 25)\<close>.
\<close>

definition drawn :: "keccak \<Rightarrow> uint256 \<Rightarrow> address \<Rightarrow> nat \<Rightarrow> uint8" where
  "drawn keccak timestamp msg_sender j = ucast (keccak timestamp msg_sender (of_nat j) mod 25)"

section \<open>The operations\<close>

text \<open>
  \<^verbatim>\<open>function startGame(uint8 numberOfMines) external payable\<close>. The arrays are
  \<^verbatim>\<open>new uint8[](numberOfMines)\<close> and \<^verbatim>\<open>new bool[](25)\<close>, zero-initialised. The result is \<open>None\<close>
  when the placement loop never ends, \<open>Some (Inl e)\<close> when the call aborts with \<open>e\<close>, and
  \<open>Some (Inr st')\<close> when it returns, leaving the state \<open>st'\<close>.
\<close>

definition startGame ::
  "keccak \<Rightarrow> uint256 \<Rightarrow> address \<Rightarrow> uint256 \<Rightarrow> uint8 \<Rightarrow> Contract \<Rightarrow> (error + Contract) option" where
  "startGame keccak timestamp msg_sender msg_value numberOfMines st =
     (if \<not> msg_value > 0 then Some (Inl (Revert ''Bet amount must be greater than 0''))
      else if \<not> (numberOfMines \<ge> 1 \<and> numberOfMines \<le> 24)
        then Some (Inl (Revert ''Mines must be between 1 and 24''))
      else if isActive (games st msg_sender)
        then Some (Inl (Revert ''Player already has an active game''))
      else
        (case placeMines keccak timestamp msg_sender numberOfMines 0
                (replicate (unat numberOfMines) 0) of
           None \<Rightarrow> None
         | Some locs \<Rightarrow>
             Some (and_then (checked_add (sharedPoolBalance st) msg_value) (\<lambda>pool.
               Inr (st\<lparr>games := (games st)(msg_sender :=
                          \<lparr>player = msg_sender, betAmount = msg_value,
                           totalMines = numberOfMines, revealedSafeTiles = 0,
                           revealedTiles = replicate 25 False, mineLocations = locs,
                           isActive = True\<rparr>),
                        sharedPoolBalance := pool,
                        emitted := GameStarted msg_sender msg_value numberOfMines # emitted st\<rparr>)))))"

text \<open>
  The scan of \<open>revealTile\<close>,
  \<^verbatim>\<open>for (uint8 i = 0; i < game.totalMines; i++) if (game.mineLocations[i] == tileIndex) { isMine = true; break; }\<close>
  from index \<open>i\<close> on. It reads a storage array, whose length the loop does not consult: an
  index past its end aborts the call.
\<close>

function isMineFrom :: "Game \<Rightarrow> uint8 \<Rightarrow> uint8 \<Rightarrow> error + bool" where
  "isMineFrom game tileIndex i =
     (if i < totalMines game then
        (if \<not> unat i < length (mineLocations game) then Inl (Panic IndexOutOfBounds)
         else if mineLocations game ! unat i = tileIndex then Inr True
         else isMineFrom game tileIndex (i + 1))
      else Inr False)"
  by pat_completeness auto
termination
  by (relation "measure (\<lambda>(game, tileIndex, i). unat (totalMines game) - unat i)")
     (simp_all add: unat_succ_less word_less_nat_alt)

declare isMineFrom.simps [simp del]

text \<open>\<^verbatim>\<open>function revealTile(uint8 tileIndex) external\<close>\<close>

definition revealTile :: "address \<Rightarrow> uint8 \<Rightarrow> Contract \<Rightarrow> error + Contract" where
  "revealTile msg_sender tileIndex st =
     (if \<not> tileIndex < 25 then Inl (Revert ''Invalid tile index'')
      else if \<not> isActive (games st msg_sender) then Inl (Revert ''No active game'')
      else if \<not> unat tileIndex < length (revealedTiles (games st msg_sender))
        then Inl (Panic IndexOutOfBounds)
      else if revealedTiles (games st msg_sender) ! unat tileIndex
        then Inl (Revert ''Tile already revealed'')
      else
        (let game = (games st msg_sender)
               \<lparr>revealedTiles := (revealedTiles (games st msg_sender))[unat tileIndex := True]\<rparr>
         in and_then (isMineFrom game tileIndex 0) (\<lambda>isMine.
              if isMine then
                Inr (st\<lparr>games := (games st)(msg_sender := game\<lparr>isActive := False\<rparr>),
                        emitted := GameLost msg_sender
                          # TileRevealed msg_sender tileIndex True # emitted st\<rparr>)
              else
                and_then (checked_add (revealedSafeTiles game) 1) (\<lambda>n.
                  Inr (st\<lparr>games := (games st)(msg_sender := game\<lparr>revealedSafeTiles := n\<rparr>),
                          emitted := TileRevealed msg_sender tileIndex False # emitted st\<rparr>)))))"

text \<open>
  \<^verbatim>\<open>function cashOut() external\<close>. The sum \<open>game.betAmount + winnings\<close> is evaluated three
  times in the source (the test, the pool update, the transfer), each time checked.
\<close>

definition cashOut ::
  "(address \<Rightarrow> uint256 \<Rightarrow> bool) \<Rightarrow> address \<Rightarrow> Contract \<Rightarrow> error + Contract" where
  "cashOut accepts msg_sender st =
     (let game = games st msg_sender in
      if \<not> isActive game then Inl (Revert ''No active game'')
      else if \<not> revealedSafeTiles game > 0
        then Inl (Revert ''Must reveal at least one safe tile'')
      else
        and_then (calculateWinnings (betAmount game) (totalMines game) (revealedSafeTiles game))
          (\<lambda>computed.
        and_then (checked_add computed (betAmount game)) (\<lambda>wanted.
        and_then (if wanted > sharedPoolBalance st
                  then checked_sub (sharedPoolBalance st) (betAmount game)
                  else Inr computed) (\<lambda>winnings.
        and_then (checked_add (betAmount game) winnings) (\<lambda>payout.
        and_then (checked_sub (sharedPoolBalance st) payout) (\<lambda>pool.
        and_then (transfer accepts msg_sender payout
                   (st\<lparr>games := (games st)(msg_sender := game\<lparr>isActive := False\<rparr>),
                       sharedPoolBalance := pool\<rparr>)) (\<lambda>st'.
        Inr (st'\<lparr>emitted := GameWon msg_sender winnings # emitted st'\<rparr>))))))))"

text \<open>\<^verbatim>\<open>getGameStatus\<close>, \<^verbatim>\<open>getSharedPoolBalance\<close>, \<^verbatim>\<open>addHouseFunds\<close>, \<^verbatim>\<open>withdrawHouseFunds\<close>\<close>

definition getGameStatus :: "address \<Rightarrow> Contract \<Rightarrow> Game" where
  "getGameStatus p st = games st p"

definition getSharedPoolBalance :: "Contract \<Rightarrow> uint256" where
  "getSharedPoolBalance st = sharedPoolBalance st"

definition addHouseFunds :: "uint256 \<Rightarrow> Contract \<Rightarrow> error + Contract" where
  "addHouseFunds msg_value st =
     and_then (checked_add (sharedPoolBalance st) msg_value) (\<lambda>pool.
       Inr (st\<lparr>sharedPoolBalance := pool\<rparr>))"

definition withdrawHouseFunds ::
  "(address \<Rightarrow> uint256 \<Rightarrow> bool) \<Rightarrow> address \<Rightarrow> Contract \<Rightarrow> error + Contract" where
  "withdrawHouseFunds accepts msg_sender st =
     and_then (transfer accepts msg_sender (sharedPoolBalance st) st) (\<lambda>st'.
       Inr (st'\<lparr>sharedPoolBalance := 0\<rparr>))"

section \<open>The counter invariant\<close>

text \<open>
  The specification's invariants of a game record, in its words: the board has 25 reveal
  flags and \<open>|mineLocations| = totalMines\<close>; \<open>revealedSafeTiles\<close> equals the number of
  indices \<open>i\<close> in \<open>[0, 25)\<close> with \<open>revealedTiles[i]\<close> set and \<open>i\<close> not in \<open>mineLocations\<close>.
\<close>

definition well_formed :: "Game \<Rightarrow> bool" where
  "well_formed g \<longleftrightarrow>
     length (revealedTiles g) = 25 \<and> length (mineLocations g) = unat (totalMines g)"

definition safeRevealed :: "Game \<Rightarrow> nat" where
  "safeRevealed g =
     length (filter (\<lambda>i. revealedTiles g ! i \<and> of_nat i \<notin> set (mineLocations g)) [0..<25])"

definition counter_inv :: "Game \<Rightarrow> bool" where
  "counter_inv g \<longleftrightarrow> well_formed g \<and> unat (revealedSafeTiles g) = safeRevealed g"

section \<open>Example states\<close>

text \<open>
  Player \<open>7\<close> staked 100 on three mines (tiles 1, 2, 3) and has revealed the five safe
  tiles 0, 4, 5, 6, 7; the pool has since fallen to 50 (the pool is shared, and
  \<open>withdrawHouseFunds\<close> empties it for anyone).
\<close>

definition insolvent :: Contract where
  "insolvent = deployed\<lparr>games := (games deployed)(7 :=
       \<lparr>player = 7, betAmount = 100, totalMines = 3, revealedSafeTiles = 5,
        revealedTiles = [True, False, False, False, True, True, True, True] @ replicate 17 False,
        mineLocations = [1, 2, 3], isActive = True\<rparr>),
     sharedPoolBalance := 50\<rparr>"

text \<open>
  Player \<open>7\<close> staked 100 on 24 mines (every tile but tile 0) and has revealed tile 0.
\<close>

definition lastTile :: Contract where
  "lastTile = deployed\<lparr>games := (games deployed)(7 :=
       \<lparr>player = 7, betAmount = 100, totalMines = 24, revealedSafeTiles = 1,
        revealedTiles = (replicate 25 False)[0 := True],
        mineLocations =
          [1, 2, 3, 4, 5, 6, 7, 8, 9, 10, 11, 12, 13, 14, 15, 16, 17, 18, 19, 20, 21, 22, 23, 24],
        isActive = True\<rparr>),
     sharedPoolBalance := 1000\<rparr>"

text \<open>
  Two transactions of the account \<open>0xf39Fd6e51aad88F6F4ce6aB8827279cffFb92266\<close> (the first
  account of a local Hardhat node), in blocks with the timestamps 1700000001 and
  1700000008. \<open>keccak_sample\<close> tabulates the Keccak-256 digests of the 53 packed bytes
  (32 of timestamp, 20 of address, 1 of slot) that \<open>startGame\<close> hashes there; it is 0 at
  the arguments the examples never reach. At 1700000001 the first three draws are 24, 10
  and 19; at 1700000008 the first two are both 13.
\<close>

definition alice :: address where
  "alice = 0xf39Fd6e51aad88F6F4ce6aB8827279cffFb92266"

definition keccak_sample :: keccak where
  "keccak_sample timestamp msg_sender i =
     (if msg_sender = alice \<and> timestamp = 1700000001 then
        (if i = 0 then 0xc02e9290ede45574132ca8f651202062458e1a8607fc4720efb619fa88025e45
         else if i = 1 then 0x35394c427321bc65eaa568047988daa942cf81eb926f4b727522ce8693f71f06
         else if i = 2 then 0x546521fae5e2878c297cef7bc3d2a8dd069e74af4b6243a2f9acf27d60d4ddb5
         else 0)
      else if msg_sender = alice \<and> timestamp = 1700000008 then
        (if i = 0 then 0xd27b29ee3a2176cbeda95f10b71c912cbbb234a4b8d59d32e3bf44af7a915333
         else if i = 1 then 0x55c15a910b1283a2630205c97d08cc324e395790a3d5ed2df01aa5ca8ca98302
         else 0)
      else 0)"

text \<open>
  The state after \<open>alice\<close> started a game on three mines with a stake of 100 at timestamp
  1700000001, on the freshly deployed contract.
\<close>

definition threeMines :: Contract where
  "threeMines = deployed\<lparr>games := (games deployed)(alice :=
       \<lparr>player = alice, betAmount = 100, totalMines = 3, revealedSafeTiles = 0,
        revealedTiles = replicate 25 False, mineLocations = [24, 10, 19], isActive = True\<rparr>),
     sharedPoolBalance := 100,
     emitted := [GameStarted alice 100 3]\<rparr>"

section \<open>Facts about checked arithmetic\<close>

lemma unat_ucast_8_256: "unat (ucast (x :: uint8) :: uint256) = unat x"
proof -
  have "unat x < 2 ^ 8" using unsigned_less[of x] by simp
  also have "(2::nat) ^ 8 \<le> 2 ^ 256" by (rule power_increasing) simp_all
  finally show ?thesis by (simp add: unsigned_ucast_eq take_bit_nat_eq_self)
qed

lemma checked_sub_unat: "checked_sub a b = Inr c \<Longrightarrow> unat b \<le> unat a \<and> unat c = unat a - unat b"
  by (auto simp: checked_sub_def unat_sub word_le_nat_alt split: if_splits)

lemma checked_mul_unat:
  "checked_mul a b = Inr c \<Longrightarrow> unat a * unat b < 2 ^ LENGTH('a) \<and> unat c = unat a * unat b"
  for a b :: "'a::len word"
  by (auto simp: checked_mul_def unat_mult_lem[symmetric] split: if_splits)

lemma checked_add_unat:
  "checked_add a b = Inr c \<Longrightarrow> unat a + unat b < 2 ^ LENGTH('a) \<and> unat c = unat a + unat b"
  for a b :: "'a::len word"
  by (auto simp: checked_add_def unat_add_lem[symmetric] split: if_splits)

lemma checked_sub_ok: "unat b \<le> unat a \<Longrightarrow> checked_sub a b = Inr (a - b)"
  by (simp add: checked_sub_def word_le_nat_alt)

lemma checked_mul_ok:
  "unat a * unat b < 2 ^ LENGTH('a) \<Longrightarrow> checked_mul a b = Inr (a * b)" for a b :: "'a::len word"
  by (simp add: checked_mul_def)

lemma checked_add_ok:
  "unat a + unat b < 2 ^ LENGTH('a) \<Longrightarrow> checked_add a b = Inr (a + b)" for a b :: "'a::len word"
  by (simp add: checked_add_def)

lemma and_then_Inr: "and_then m f = Inr y \<longleftrightarrow> (\<exists>v. m = Inr v \<and> f v = Inr y)"
  by (cases m) (simp_all add: and_then_def)

lemma and_then_Inl: "and_then m f = Inl e \<longleftrightarrow> m = Inl e \<or> (\<exists>v. m = Inr v \<and> f v = Inl e)"
  by (cases m) (simp_all add: and_then_def)

lemma checked_error:
  "checked_add a b = Inl e \<Longrightarrow> e = Panic ArithmeticOverflow"
  "checked_sub a b = Inl e \<Longrightarrow> e = Panic ArithmeticOverflow"
  "checked_mul a b = Inl e \<Longrightarrow> e = Panic ArithmeticOverflow"
  by (auto simp: checked_add_def checked_sub_def checked_mul_def split: if_splits)

lemma calculateWinnings_error:
  "calculateWinnings bet mines safeTiles = Inl e \<Longrightarrow> e = Panic ArithmeticOverflow"
  by (auto simp: calculateWinnings_def and_then_Inl dest: checked_error split: if_splits)

lemma calculateWinnings_Inr:
  assumes "calculateWinnings bet mines safeTiles = Inr w"
  shows "unat w = payout_spec (unat bet) (unat mines) (unat safeTiles)"
    and "safeTiles \<noteq> 0 \<Longrightarrow> unat mines \<le> 25"
    and "safeTiles \<noteq> 0 \<Longrightarrow> (25 - unat mines) * unat safeTiles < 256"
    and "safeTiles \<noteq> 0 \<Longrightarrow>
           unat bet * ((25 - unat mines) * unat safeTiles div 25) < 2 ^ 256"
proof -
  show "unat w = payout_spec (unat bet) (unat mines) (unat safeTiles)"
  proof (cases "safeTiles = 0")
    case True
    with assms show ?thesis by (simp add: calculateWinnings_def payout_spec_def)
  next
    case False
    with assms obtain d p q where
      d: "checked_sub (25 :: uint8) mines = Inr d" and
      p: "checked_mul d safeTiles = Inr p" and
      q: "checked_mul bet (ucast (p div 25) :: uint256) = Inr q" and
      w: "w = q div 100"
      by (auto simp: calculateWinnings_def and_then_Inr)
    from d have d': "unat d = 25 - unat mines" by (auto dest: checked_sub_unat)
    from p have p': "unat p = unat d * unat safeTiles" by (auto dest: checked_mul_unat)
    have m: "unat (ucast (p div 25) :: uint256) = unat p div 25"
      by (simp add: unat_ucast_8_256 unat_div)
    from q have q': "unat q = unat bet * (unat p div 25)"
      using m by (auto dest: checked_mul_unat)
    from False have "unat safeTiles \<noteq> 0" by (simp add: unat_eq_0)
    then show ?thesis
      by (simp add: w unat_div q' p' d' payout_spec_def)
  qed
next
  assume nz: "safeTiles \<noteq> 0"
  with assms obtain d p q where
      d: "checked_sub (25 :: uint8) mines = Inr d" and
      p: "checked_mul d safeTiles = Inr p" and
      q: "checked_mul bet (ucast (p div 25) :: uint256) = Inr q"
      by (auto simp: calculateWinnings_def and_then_Inr)
  from d have d': "unat d = 25 - unat mines" and m25: "unat mines \<le> 25"
    by (auto dest: checked_sub_unat)
  from p have p': "unat p = unat d * unat safeTiles" and pb: "unat d * unat safeTiles < 256"
    by (auto dest: checked_mul_unat)
  have m: "unat (ucast (p div 25) :: uint256) = unat p div 25"
    by (simp add: unat_ucast_8_256 unat_div)
  from q have qb: "unat bet * (unat p div 25) < 2 ^ 256"
    using m by (auto dest: checked_mul_unat)
  show "unat mines \<le> 25" by (rule m25)
  show "(25 - unat mines) * unat safeTiles < 256" using pb d' by simp
  show "unat bet * ((25 - unat mines) * unat safeTiles div 25) < 2 ^ 256"
    using qb p' d' by simp
qed

lemma calculateWinnings_returns:
  assumes "unat mines \<le> 25"
    and "(25 - unat mines) * unat safeTiles < 256"
    and "unat bet * ((25 - unat mines) * unat safeTiles div 25) < 2 ^ 256"
  shows "\<exists>w. calculateWinnings bet mines safeTiles = Inr w"
proof (cases "safeTiles = 0")
  case True
  then show ?thesis by (simp add: calculateWinnings_def)
next
  case False
  have d: "checked_sub (25 :: uint8) mines = Inr (25 - mines)"
    using assms(1) by (simp add: checked_sub_ok)
  have d': "unat (25 - mines) = 25 - unat mines"
    using d by (auto dest: checked_sub_unat)
  have p: "checked_mul (25 - mines) safeTiles = Inr ((25 - mines) * safeTiles)"
    using assms(2) d' by (simp add: checked_mul_ok)
  have p': "unat ((25 - mines) * safeTiles) = (25 - unat mines) * unat safeTiles"
    using p d' by (auto dest: checked_mul_unat)
  have m: "unat (ucast ((25 - mines) * safeTiles div 25) :: uint256)
             = (25 - unat mines) * unat safeTiles div 25"
    by (simp add: unat_ucast_8_256 unat_div p')
  have q: "checked_mul bet (ucast ((25 - mines) * safeTiles div 25) :: uint256)
             = Inr (bet * ucast ((25 - mines) * safeTiles div 25))"
    using assms(3) m by (simp add: checked_mul_ok)
  show ?thesis
    using False by (simp add: calculateWinnings_def d p q and_then_def)
qed

lemmas eval_simps =
  calculateWinnings_def and_then_def checked_sub_def checked_mul_def checked_add_def

section \<open>The payout function: what it returns\<close>

text \<open>
  C3. The specification gives the payout as \<open>floor(betAmount * multiplier / 100)\<close> with
  \<open>multiplier = floor((25 - totalMines) * revealedSafeTiles / 25)\<close>. The contract computes
  \<open>(25 - totalMines) * revealedSafeTiles\<close> in \<open>uint8\<close>: as soon as that product exceeds 255
  the call aborts with an arithmetic panic instead of returning the formula's value. With
  one mine this happens from the eleventh safe tile on (\<open>24 * 11 = 264\<close>), where the formula
  gives 10 for a stake of 100. Where the call does return, its value is the formula's
  (\<open>calculateWinnings_Inr\<close>).
\<close>

theorem calculateWinnings_panics_past_uint8:
  assumes "safeTiles \<noteq> 0" and "unat mines \<le> 25"
    and "255 < (25 - unat mines) * unat safeTiles"
  shows "calculateWinnings bet mines safeTiles = Inl (Panic ArithmeticOverflow)"
proof (cases "calculateWinnings bet mines safeTiles")
  case (Inl e)
  then show ?thesis by (simp add: calculateWinnings_error)
next
  case (Inr w)
  from calculateWinnings_Inr(3)[OF Inr assms(1)] assms(3) show ?thesis by simp
qed

theorem calculateWinnings_panics_past_uint8_witness:
  "payout_spec 100 1 11 = 10 \<and> calculateWinnings 100 1 11 = Inl (Panic ArithmeticOverflow)"
  using calculateWinnings_panics_past_uint8 [of 11 1 100] by (simp add: payout_spec_def)

text \<open>The specification's own example, stake 100 with three mines and five safe tiles.\<close>

lemma calculateWinnings_scenario_B: "calculateWinnings 100 3 5 = Inr 4"
  by (simp add: eval_simps)

text \<open>
  C8. As stated, monotonicity fails: for \<open>s1 \<le> s2\<close> the call at \<open>s2\<close> may abort where the
  call at \<open>s1\<close> returns, because \<open>betAmount * multiplier\<close> leaves \<open>uint256\<close> or because the
  \<open>uint8\<close> product of C3 leaves \<open>uint8\<close>.
\<close>

theorem payout_monotone_counterexample:
  "calculateWinnings (2 ^ 255) 1 1 = Inr 0 \<and>
   calculateWinnings (2 ^ 255) 1 3 = Inl (Panic ArithmeticOverflow) \<and>
   calculateWinnings 100 1 10 = Inr 9 \<and>
   calculateWinnings 100 1 11 = Inl (Panic ArithmeticOverflow)"
  by (simp add: eval_simps)

text \<open>
  C8, amended. For a fixed stake and mine count and \<open>s1 \<le> s2\<close>: whenever the payout for
  \<open>s2\<close> safe tiles returns a value, the payout for \<open>s1\<close> returns one too, and it is not
  larger.
\<close>

theorem payout_monotone_where_it_returns:
  assumes le: "s1 \<le> s2" and r2: "calculateWinnings bet mines s2 = Inr w2"
  shows "\<exists>w1. calculateWinnings bet mines s1 = Inr w1 \<and> w1 \<le> w2"
proof (cases "s1 = 0")
  case True
  then show ?thesis by (simp add: calculateWinnings_def)
next
  case False
  with le have nz2: "s2 \<noteq> 0" by auto
  from le have le': "unat s1 \<le> unat s2" by (simp add: word_le_nat_alt)
  note f = calculateWinnings_Inr[OF r2]
  have m: "unat mines \<le> 25" using f(2) nz2 by simp
  have a: "(25 - unat mines) * unat s1 \<le> (25 - unat mines) * unat s2"
    using le' by (rule mult_le_mono2)
  then have b: "(25 - unat mines) * unat s1 < 256" using f(3)[OF nz2] by linarith
  have c: "(25 - unat mines) * unat s1 div 25 \<le> (25 - unat mines) * unat s2 div 25"
    using a by (rule div_le_mono)
  then have d: "unat bet * ((25 - unat mines) * unat s1 div 25)
                 \<le> unat bet * ((25 - unat mines) * unat s2 div 25)"
    by (rule mult_le_mono2)
  then have e: "unat bet * ((25 - unat mines) * unat s1 div 25) < 2 ^ 256"
    using f(4)[OF nz2] by (rule le_less_trans)
  from calculateWinnings_returns[OF m b e] obtain w1 where
    r1: "calculateWinnings bet mines s1 = Inr w1" by blast
  have nz1': "unat s1 \<noteq> 0" using False by (simp add: unat_eq_0)
  have nz2': "unat s2 \<noteq> 0" using nz2 by (simp add: unat_eq_0)
  have "unat w1 \<le> unat w2"
    using d nz1' nz2'
    by (simp add: calculateWinnings_Inr(1)[OF r1] f(1) payout_spec_def div_le_mono)
  then show ?thesis using r1 by (simp add: word_le_nat_alt)
qed

theorem payout_monotone_where_it_returns_witness:
  "(5 :: uint8) \<le> 10 \<and> calculateWinnings 100 3 10 = Inr 8 \<and>
   (\<exists>w1. calculateWinnings 100 3 5 = Inr w1 \<and> w1 \<le> 8)"
proof -
  have a: "(5 :: uint8) \<le> 10" by simp
  have b: "calculateWinnings 100 3 10 = Inr 8" by (simp add: eval_simps)
  from payout_monotone_where_it_returns [OF a b] a b show ?thesis by simp
qed

section \<open>Cashing out of a pool that is short\<close>

text \<open>
  The part of the solvency clamp that works: when the pool holds at least the stake but
  less than stake plus winnings, the player is paid what the pool holds, the realized
  winnings are the pool minus the stake, and the pool is left empty.
\<close>

lemma cashOut_clamps_to_pool:
  assumes act: "isActive (games st msg_sender)"
    and pos: "revealedSafeTiles (games st msg_sender) > 0"
    and w: "calculateWinnings (betAmount (games st msg_sender))
              (totalMines (games st msg_sender)) (revealedSafeTiles (games st msg_sender))
            = Inr computed"
    and fits: "unat computed + unat (betAmount (games st msg_sender)) < 2 ^ 256"
    and short: "unat (sharedPoolBalance st)
                  < unat computed + unat (betAmount (games st msg_sender))"
    and covers: "betAmount (games st msg_sender) \<le> sharedPoolBalance st"
    and acc: "accepts msg_sender (sharedPoolBalance st)"
  shows "cashOut accepts msg_sender st =
           Inr (st\<lparr>games := (games st)(msg_sender := (games st msg_sender)\<lparr>isActive := False\<rparr>),
                   sharedPoolBalance := 0,
                   emitted := GameWon msg_sender
                     (sharedPoolBalance st - betAmount (games st msg_sender)) # emitted st,
                   transfers := (msg_sender, sharedPoolBalance st) # transfers st\<rparr>)"
proof -
  let ?g = "games st msg_sender"
  have wanted: "checked_add computed (betAmount ?g) = Inr (computed + betAmount ?g)"
    using fits by (simp add: checked_add_ok)
  have "unat (computed + betAmount ?g) = unat computed + unat (betAmount ?g)"
    using wanted by (simp add: checked_add_unat)
  then have gt: "computed + betAmount ?g > sharedPoolBalance st"
    using short by (simp add: word_less_nat_alt)
  have sub: "checked_sub (sharedPoolBalance st) (betAmount ?g)
               = Inr (sharedPoolBalance st - betAmount ?g)"
    using covers by (simp add: checked_sub_def)
  have "unat (betAmount ?g) + unat (sharedPoolBalance st - betAmount ?g)
          = unat (sharedPoolBalance st)"
    using covers by (simp add: unat_sub word_le_nat_alt)
  then have payout: "checked_add (betAmount ?g) (sharedPoolBalance st - betAmount ?g)
                  = Inr (sharedPoolBalance st)"
    using unsigned_less[of "sharedPoolBalance st", where 'a=nat]
    by (simp add: checked_add_def)
  have pool: "checked_sub (sharedPoolBalance st) (sharedPoolBalance st) = Inr 0"
    by (simp add: checked_sub_def)
  show ?thesis
    using act pos gt acc
    by (simp add: cashOut_def Let_def w wanted sub payout pool transfer_def and_then_def)
qed

text \<open>
  C1. The specification wants a cash-out from a pool smaller than the stake to complete
  with the realized winnings floored at zero. The contract computes
  \<open>sharedPoolBalance - game.betAmount\<close> in checked \<open>uint256\<close> arithmetic with no guard for
  that case: no wrapped value is produced, but the whole call aborts with an arithmetic
  panic and the player is paid nothing. The specification's own scenario (pool 50,
  stake 100) is the witness.
\<close>

theorem cashOut_panics_below_stake:
  assumes "isActive (games st msg_sender)"
    and "revealedSafeTiles (games st msg_sender) > 0"
    and "sharedPoolBalance st < betAmount (games st msg_sender)"
  shows "cashOut accepts msg_sender st = Inl (Panic ArithmeticOverflow)"
proof (cases "calculateWinnings (betAmount (games st msg_sender))
                (totalMines (games st msg_sender)) (revealedSafeTiles (games st msg_sender))")
  case (Inl e)
  with assms(1,2) show ?thesis
    by (simp add: cashOut_def Let_def and_then_def calculateWinnings_error)
next
  case w: (Inr computed)
  show ?thesis
  proof (cases "checked_add computed (betAmount (games st msg_sender))")
    case (Inl e)
    with assms(1,2) w show ?thesis
      by (simp add: cashOut_def Let_def and_then_def checked_error)
  next
    case (Inr wanted)
    then have "unat wanted = unat computed + unat (betAmount (games st msg_sender))"
      by (simp add: checked_add_unat)
    moreover have "unat (sharedPoolBalance st) < unat (betAmount (games st msg_sender))"
      using assms(3) by (simp add: word_less_nat_alt)
    ultimately have gt: "wanted > sharedPoolBalance st"
      by (simp add: word_less_nat_alt)
    have sub: "checked_sub (sharedPoolBalance st) (betAmount (games st msg_sender))
                 = Inl (Panic ArithmeticOverflow)"
      using assms(3) by (simp add: checked_sub_def)
    from assms(1,2) w Inr gt sub show ?thesis
      by (simp add: cashOut_def Let_def and_then_def)
  qed
qed

theorem cashOut_panics_below_stake_witness:
  "isActive (games insolvent 7) \<and> betAmount (games insolvent 7) = 100 \<and>
   sharedPoolBalance insolvent = 50 \<and>
   calculateWinnings 100 3 5 = Inr 4 \<and>
   cashOut (\<lambda>_ _. True) 7 insolvent = Inl (Panic ArithmeticOverflow)"
  using cashOut_panics_below_stake [of insolvent 7 "\<lambda>_ _. True"]
  by (simp add: insolvent_def deployed_def eval_simps)

section \<open>A multiplier below one\<close>

lemma calculateWinnings_zero_multiplier:
  assumes "unat mines \<le> 25" and "(25 - unat mines) * unat safeTiles < 25"
  shows "calculateWinnings bet mines safeTiles = Inr 0"
proof -
  have z: "(25 - unat mines) * unat safeTiles div 25 = 0" using assms(2) by simp
  have b: "(25 - unat mines) * unat safeTiles < 256" using assms(2) by linarith
  have c: "unat bet * ((25 - unat mines) * unat safeTiles div 25) < 2 ^ 256"
    by (simp add: z)
  from calculateWinnings_returns[OF assms(1) b c] obtain w where
    w: "calculateWinnings bet mines safeTiles = Inr w" by blast
  have "unat w = 0"
    using calculateWinnings_Inr(1)[OF w] z by (simp add: payout_spec_def)
  then have "w = 0" by (simp add: unat_eq_0)
  with w show ?thesis by simp
qed

lemma cashOut_without_winnings:
  assumes act: "isActive (games st msg_sender)"
    and pos: "revealedSafeTiles (games st msg_sender) > 0"
    and w: "calculateWinnings (betAmount (games st msg_sender))
              (totalMines (games st msg_sender)) (revealedSafeTiles (games st msg_sender))
            = Inr 0"
    and covers: "betAmount (games st msg_sender) \<le> sharedPoolBalance st"
    and acc: "accepts msg_sender (betAmount (games st msg_sender))"
  shows "cashOut accepts msg_sender st =
           Inr (st\<lparr>games := (games st)(msg_sender := (games st msg_sender)\<lparr>isActive := False\<rparr>),
                   sharedPoolBalance := sharedPoolBalance st - betAmount (games st msg_sender),
                   emitted := GameWon msg_sender 0 # emitted st,
                   transfers := (msg_sender, betAmount (games st msg_sender)) # transfers st\<rparr>)"
proof -
  let ?g = "games st msg_sender"
  have lt: "unat (betAmount ?g) < 2 ^ 256"
    using unsigned_less[of "betAmount ?g", where 'a=nat] by simp
  have wanted: "checked_add 0 (betAmount ?g) = Inr (betAmount ?g)"
    using lt by (simp add: checked_add_def)
  have payout: "checked_add (betAmount ?g) 0 = Inr (betAmount ?g)"
    using lt by (simp add: checked_add_def)
  have ngt: "\<not> betAmount ?g > sharedPoolBalance st" using covers by simp
  have pool: "checked_sub (sharedPoolBalance st) (betAmount ?g)
                = Inr (sharedPoolBalance st - betAmount ?g)"
    using covers by (simp add: checked_sub_def)
  show ?thesis
    using act pos ngt acc
    by (simp add: cashOut_def Let_def w wanted payout pool transfer_def and_then_def)
qed

text \<open>
  C10. The multiplier is an integer quotient: while \<open>(25 - totalMines) * revealedSafeTiles\<close>
  is below 25 it is 0 and so are the winnings, whatever the stake. With 24 mines the one
  safe tile gives \<open>1 * 1 < 25\<close>: the payout is 0, and a cash-out from a pool that covers the
  stake pays the stake and nothing else.
\<close>

theorem zero_winnings_below_full_multiplier:
  "(1 \<le> mines \<and> mines \<le> 24 \<and> 1 \<le> safeTiles \<and> (25 - unat mines) * unat safeTiles < 25
      \<longrightarrow> calculateWinnings bet mines safeTiles = Inr 0) \<and>
   calculateWinnings bet 24 1 = Inr 0 \<and>
   (isActive (games st msg_sender) \<and> totalMines (games st msg_sender) = 24 \<and>
    revealedSafeTiles (games st msg_sender) = 1 \<and>
    betAmount (games st msg_sender) \<le> sharedPoolBalance st \<and>
    accepts msg_sender (betAmount (games st msg_sender))
      \<longrightarrow> cashOut accepts msg_sender st =
           Inr (st\<lparr>games := (games st)(msg_sender := (games st msg_sender)\<lparr>isActive := False\<rparr>),
                   sharedPoolBalance := sharedPoolBalance st - betAmount (games st msg_sender),
                   emitted := GameWon msg_sender 0 # emitted st,
                   transfers := (msg_sender, betAmount (games st msg_sender)) # transfers st\<rparr>))"
proof (intro conjI impI)
  assume a: "1 \<le> mines \<and> mines \<le> 24 \<and> 1 \<le> safeTiles \<and>
             (25 - unat mines) * unat safeTiles < 25"
  then have "unat mines \<le> 24" by (simp add: word_le_nat_alt)
  then have "unat mines \<le> 25" by simp
  with a show "calculateWinnings bet mines safeTiles = Inr 0"
    by (simp add: calculateWinnings_zero_multiplier)
next
  show "calculateWinnings bet 24 1 = Inr 0"
    by (rule calculateWinnings_zero_multiplier) simp_all
next
  assume a: "isActive (games st msg_sender) \<and> totalMines (games st msg_sender) = 24 \<and>
    revealedSafeTiles (games st msg_sender) = 1 \<and>
    betAmount (games st msg_sender) \<le> sharedPoolBalance st \<and>
    accepts msg_sender (betAmount (games st msg_sender))"
  have w: "calculateWinnings (betAmount (games st msg_sender)) 24 1 = Inr 0"
    by (rule calculateWinnings_zero_multiplier) simp_all
  show "cashOut accepts msg_sender st =
           Inr (st\<lparr>games := (games st)(msg_sender := (games st msg_sender)\<lparr>isActive := False\<rparr>),
                   sharedPoolBalance := sharedPoolBalance st - betAmount (games st msg_sender),
                   emitted := GameWon msg_sender 0 # emitted st,
                   transfers := (msg_sender, betAmount (games st msg_sender)) # transfers st\<rparr>)"
    by (rule cashOut_without_winnings) (use a w in simp_all)
qed

theorem zero_winnings_below_full_multiplier_witness:
  "calculateWinnings 1000000 20 4 = Inr 0 \<and>
   calculateWinnings 1000000 24 1 = Inr 0 \<and>
   isActive (games lastTile 7) \<and> totalMines (games lastTile 7) = 24 \<and>
   revealedSafeTiles (games lastTile 7) = 1 \<and> betAmount (games lastTile 7) = 100 \<and>
   sharedPoolBalance lastTile = 1000 \<and>
   transfers (commit lastTile (cashOut (\<lambda>_ _. True) 7 lastTile)) = [(7, 100)] \<and>
   sharedPoolBalance (commit lastTile (cashOut (\<lambda>_ _. True) 7 lastTile)) = 900 \<and>
   emitted (commit lastTile (cashOut (\<lambda>_ _. True) 7 lastTile)) = [GameWon 7 0]"
  using zero_winnings_below_full_multiplier [of 20 4 1000000 lastTile 7 "\<lambda>_ _. True"]
  by (simp add: lastTile_def deployed_def commit_def)

section \<open>Draining the pool\<close>

text \<open>
  C9. \<open>withdrawHouseFunds\<close> has no \<open>require\<close> and does not look at who calls it: for every
  caller and every state it transfers the tracked pool balance to the caller and sets the
  pool to zero. The one way it can fail is the ether transfer itself.
\<close>

theorem withdrawHouseFunds_drains:
  "accepts msg_sender (sharedPoolBalance st) \<Longrightarrow>
   withdrawHouseFunds accepts msg_sender st =
     Inr (st\<lparr>sharedPoolBalance := 0,
             transfers := (msg_sender, sharedPoolBalance st) # transfers st\<rparr>)"
  by (simp add: withdrawHouseFunds_def transfer_def and_then_def)

theorem withdrawHouseFunds_drains_witness:
  "withdrawHouseFunds (\<lambda>_ _. True) 9 insolvent =
     Inr (insolvent\<lparr>sharedPoolBalance := 0, transfers := [(9, 50)]\<rparr>)"
  using withdrawHouseFunds_drains [of "\<lambda>_ _. True" 9 insolvent]
  by (simp add: insolvent_def deployed_def)

section \<open>Revealing a tile\<close>

lemma isMineFrom_scan:
  "length (mineLocations g) = unat (totalMines g) \<Longrightarrow> unat i \<le> unat (totalMines g) \<Longrightarrow>
     isMineFrom g t i = Inr (t \<in> set (drop (unat i) (mineLocations g)))"
proof (induction g t i rule: isMineFrom.induct)
  case (1 game tileIndex i)
  show ?case
  proof (cases "i < totalMines game")
    case True
    then have ui: "unat i < length (mineLocations game)"
      using "1.prems"(1) by (simp add: word_less_nat_alt)
    have suc: "unat (i + 1) = Suc (unat i)" using True by (rule unat_succ_less)
    have split: "drop (unat i) (mineLocations game)
        = mineLocations game ! unat i # drop (Suc (unat i)) (mineLocations game)"
      using ui by (simp add: Cons_nth_drop_Suc)
    show ?thesis
    proof (cases "mineLocations game ! unat i = tileIndex")
      case hit: True
      show ?thesis
        by (subst isMineFrom.simps) (use True ui hit split in auto)
    next
      case miss: False
      have "unat (i + 1) \<le> unat (totalMines game)"
        using True suc by (simp add: word_less_nat_alt)
      with "1.IH"[OF True _ miss "1.prems"(1)] ui
      have "isMineFrom game tileIndex (i + 1)
              = Inr (tileIndex \<in> set (drop (unat (i + 1)) (mineLocations game)))"
        by simp
      then show ?thesis
        by (subst isMineFrom.simps) (use True ui miss split suc in auto)
    qed
  next
    case False
    then have "unat (totalMines game) \<le> unat i" by (simp add: word_less_nat_alt)
    with "1.prems" have "drop (unat i) (mineLocations game) = []" by simp
    then show ?thesis
      by (subst isMineFrom.simps) (use False in simp)
  qed
qed

lemma isMineFrom_start:
  "length (mineLocations g) = unat (totalMines g) \<Longrightarrow>
     isMineFrom g t 0 = Inr (t \<in> set (mineLocations g))"
  using isMineFrom_scan[of g 0 t] by simp

lemma count_one_more:
  "\<not> P k \<Longrightarrow>
   length (filter (\<lambda>i. if i = k then Q else P i) [0..<n])
     = length (filter P [0..<n]) + (if k < n \<and> Q then 1 else 0)"
  by (induction n) auto

lemma safeRevealed_le: "safeRevealed g \<le> 25"
proof -
  have "safeRevealed g \<le> length [0..<25::nat]"
    unfolding safeRevealed_def by (rule length_filter_le)
  then show ?thesis by simp
qed

lemma safeRevealed_reveal:
  assumes len: "length (revealedTiles g) = 25" and t: "t < 25"
    and fresh: "\<not> revealedTiles g ! unat t"
  shows "safeRevealed (g\<lparr>revealedTiles := (revealedTiles g)[unat t := True]\<rparr>)
           = safeRevealed g + (if t \<in> set (mineLocations g) then 0 else 1)"
proof -
  let ?P = "\<lambda>i. revealedTiles g ! i \<and> of_nat i \<notin> set (mineLocations g)"
  let ?k = "unat t"
  have k: "?k < 25" using t by (simp add: word_less_nat_alt)
  have "filter (\<lambda>i. (revealedTiles g)[?k := True] ! i \<and> of_nat i \<notin> set (mineLocations g))
          [0..<25]
        = filter (\<lambda>i. if i = ?k then t \<notin> set (mineLocations g) else ?P i) [0..<25]"
    by (rule filter_cong) (auto simp: len nth_list_update)
  moreover have "\<not> ?P ?k" using fresh by simp
  ultimately show ?thesis
    using k by (simp add: safeRevealed_def count_one_more)
qed

lemma safeRevealed_frame:
  "safeRevealed (g\<lparr>isActive := b\<rparr>) = safeRevealed g"
  "safeRevealed (g\<lparr>revealedSafeTiles := n\<rparr>) = safeRevealed g"
  by (simp_all add: safeRevealed_def)

lemma revealTile_effect:
  assumes inv: "counter_inv (games st msg_sender)"
    and act: "isActive (games st msg_sender)"
    and t: "tileIndex < 25"
    and fresh: "\<not> revealedTiles (games st msg_sender) ! unat tileIndex"
  shows "revealTile msg_sender tileIndex st =
     Inr (if tileIndex \<in> set (mineLocations (games st msg_sender))
          then st\<lparr>games := (games st)(msg_sender := (games st msg_sender)
                     \<lparr>revealedTiles :=
                        (revealedTiles (games st msg_sender))[unat tileIndex := True],
                      isActive := False\<rparr>),
                  emitted := GameLost msg_sender
                     # TileRevealed msg_sender tileIndex True # emitted st\<rparr>
          else st\<lparr>games := (games st)(msg_sender := (games st msg_sender)
                     \<lparr>revealedTiles :=
                        (revealedTiles (games st msg_sender))[unat tileIndex := True],
                      revealedSafeTiles := revealedSafeTiles (games st msg_sender) + 1\<rparr>),
                  emitted := TileRevealed msg_sender tileIndex False # emitted st\<rparr>)"
proof -
  let ?g = "games st msg_sender"
  let ?g' = "?g\<lparr>revealedTiles := (revealedTiles ?g)[unat tileIndex := True]\<rparr>"
  from inv have len: "length (revealedTiles ?g) = 25"
    and mines: "length (mineLocations ?g) = unat (totalMines ?g)"
    and cnt: "unat (revealedSafeTiles ?g) = safeRevealed ?g"
    by (simp_all add: counter_inv_def well_formed_def)
  have k: "unat tileIndex < length (revealedTiles ?g)"
    using t len by (simp add: word_less_nat_alt)
  have scan: "isMineFrom ?g' tileIndex 0 = Inr (tileIndex \<in> set (mineLocations ?g))"
    using isMineFrom_start[of ?g' tileIndex] mines by simp
  have "safeRevealed ?g \<le> 25" by (rule safeRevealed_le)
  with cnt have "unat (revealedSafeTiles ?g) + unat (1 :: uint8) < 256" by simp
  then have inc: "checked_add (revealedSafeTiles ?g) 1 = Inr (revealedSafeTiles ?g + 1)"
    by (simp add: checked_add_def)
  have pre: "revealTile msg_sender tileIndex st =
      and_then (isMineFrom ?g' tileIndex 0) (\<lambda>isMine.
              if isMine then
                Inr (st\<lparr>games := (games st)(msg_sender := ?g'\<lparr>isActive := False\<rparr>),
                        emitted := GameLost msg_sender
                          # TileRevealed msg_sender tileIndex True # emitted st\<rparr>)
              else
                and_then (checked_add (revealedSafeTiles ?g') 1) (\<lambda>n.
                  Inr (st\<lparr>games := (games st)(msg_sender := ?g'\<lparr>revealedSafeTiles := n\<rparr>),
                          emitted := TileRevealed msg_sender tileIndex False # emitted st\<rparr>)))"
    using act t fresh k by (simp add: revealTile_def Let_def)
  show ?thesis
  proof (cases "tileIndex \<in> set (mineLocations ?g)")
    case True
    then show ?thesis by (simp add: pre scan and_then_def)
  next
    case False
    then show ?thesis by (simp add: pre scan inc and_then_def)
  qed
qed

lemma safeRevealed_none: "revealedTiles g = replicate 25 False \<Longrightarrow> safeRevealed g = 0"
  by (simp add: safeRevealed_def)

lemma counter_inv_threeMines: "counter_inv (games threeMines alice)"
  by (simp add: counter_inv_def well_formed_def safeRevealed_none threeMines_def)

text \<open>The example states are states a game can be in: they satisfy the invariant.\<close>

lemma upt_25:
  "[0..<25] = [0, 1, 2, 3, 4, 5, 6, 7, 8, 9, 10, 11, 12, 13, 14, 15, 16, 17, 18, 19, 20, 21,
              22, 23, 24 :: nat]"
  by code_simp

lemma counter_inv_insolvent: "counter_inv (games insolvent 7)"
  by (simp add: counter_inv_def well_formed_def safeRevealed_def insolvent_def deployed_def
        upt_25 nth_append)

lemma counter_inv_lastTile: "counter_inv (games lastTile 7)"
  by (simp add: counter_inv_def well_formed_def safeRevealed_def lastTile_def deployed_def
        upt_25 nth_append)

lemma unat_inc_counter:
  "counter_inv g \<Longrightarrow> unat (revealedSafeTiles g + 1) = unat (revealedSafeTiles g) + 1"
proof -
  assume "counter_inv g"
  then have "unat (revealedSafeTiles g) = safeRevealed g" by (simp add: counter_inv_def)
  with safeRevealed_le[of g]
  have "unat (revealedSafeTiles g) + unat (1 :: uint8) < 2 ^ LENGTH(8)" by simp
  then have "unat (revealedSafeTiles g + 1) = unat (revealedSafeTiles g) + unat (1 :: uint8)"
    by (simp only: unat_add_lem)
  then show ?thesis by simp
qed

lemma revealTile_Inr:
  assumes "revealTile msg_sender tileIndex st = Inr st'"
  shows "tileIndex < 25" and "isActive (games st msg_sender)"
    and "unat tileIndex < length (revealedTiles (games st msg_sender))"
    and "\<not> revealedTiles (games st msg_sender) ! unat tileIndex"
    and "revealedTiles (games st' msg_sender)
           = (revealedTiles (games st msg_sender))[unat tileIndex := True]"
  using assms
  by (auto simp: revealTile_def Let_def and_then_Inr split: if_splits)

section \<open>Placing the mines\<close>

lemma locationTaken_scan:
  "unat i \<le> length locs \<Longrightarrow> unat j \<le> unat i \<Longrightarrow>
     locationTaken locs loc i j \<longleftrightarrow> loc \<in> set (drop (unat j) (take (unat i) locs))"
proof (induction locs loc i j rule: locationTaken.induct)
  case (1 locs loc i j)
  show ?case
  proof (cases "j < i")
    case True
    then have uj: "unat j < unat i" by (simp add: word_less_nat_alt)
    have suc: "unat (j + 1) = Suc (unat j)" using True by (rule unat_succ_less)
    have len: "unat j < length (take (unat i) locs)" using uj "1.prems"(1) by simp
    have split: "drop (unat j) (take (unat i) locs)
        = locs ! unat j # drop (Suc (unat j)) (take (unat i) locs)"
      using len uj by (simp add: Cons_nth_drop_Suc[symmetric])
    show ?thesis
    proof (cases "locs ! unat j = loc")
      case hit: True
      show ?thesis
        by (subst locationTaken.simps) (use True hit split in auto)
    next
      case miss: False
      have "unat (j + 1) \<le> unat i" using uj suc by simp
      with "1.IH"[OF True miss "1.prems"(1)]
      have "locationTaken locs loc i (j + 1)
              \<longleftrightarrow> loc \<in> set (drop (unat (j + 1)) (take (unat i) locs))"
        by simp
      then show ?thesis
        by (subst locationTaken.simps) (use True miss split suc in auto)
    qed
  next
    case False
    then have "unat i \<le> unat j" by (simp add: word_less_nat_alt)
    then have "drop (unat j) (take (unat i) locs) = []" by simp
    then show ?thesis
      by (subst locationTaken.simps) (use False in simp)
  qed
qed

lemma locationTaken_start:
  "unat i \<le> length locs \<Longrightarrow> locationTaken locs loc i 0 \<longleftrightarrow> loc \<in> set (take (unat i) locs)"
  using locationTaken_scan[of i locs 0 loc] by simp

lemma drawLocation_free:
  "\<not> locationTaken locs (ucast (keccak timestamp msg_sender i mod 25)) i 0 \<Longrightarrow>
     drawLocation keccak timestamp msg_sender locs i
       = Some (ucast (keccak timestamp msg_sender i mod 25))"
  by (subst drawLocation.simps) simp

lemma drawLocation_Some:
  assumes "drawLocation keccak timestamp msg_sender locs i = Some y"
  shows "\<not> locationTaken locs (ucast (keccak timestamp msg_sender i mod 25)) i 0"
  by (rule drawLocation.raw_induct
        [where P = "\<lambda>keccak timestamp msg_sender locs i y.
           \<not> locationTaken locs (ucast (keccak timestamp msg_sender i mod 25)) i 0",
         rotated 1, OF assms])
     (auto split: if_splits)

lemma drawLocation_stuck:
  "locationTaken locs (ucast (keccak timestamp msg_sender i mod 25)) i 0 \<Longrightarrow>
     drawLocation keccak timestamp msg_sender locs i = None"
  using drawLocation_Some[of keccak timestamp msg_sender locs i]
  by (cases "drawLocation keccak timestamp msg_sender locs i") auto


lemma placeMines_result:
  assumes "length locs = unat n" and "i \<le> n"
    and "take (unat i) locs = map (drawn k ts s) [0..<unat i]"
    and "distinct (map (drawn k ts s) [0..<unat i])"
  shows "placeMines k ts s n i locs =
           (if distinct (map (drawn k ts s) [0..<unat n])
            then Some (map (drawn k ts s) [0..<unat n]) else None)"
  using assms
proof (induction k ts s n i locs rule: placeMines.induct)
  case (1 k ts s n i locs)
  let ?d = "drawn k ts s"
  show ?case
  proof (cases "i < n")
    case True
    then have ui: "unat i < unat n" by (simp add: word_less_nat_alt)
    have suc: "unat (i + 1) = Suc (unat i)" using True by (rule unat_succ_less)
    have di: "ucast (k ts s i mod 25) = ?d (unat i)" by (simp add: drawn_def)
    have taken: "locationTaken locs (?d (unat i)) i 0
                   \<longleftrightarrow> ?d (unat i) \<in> set (map ?d [0..<unat i])"
      using locationTaken_start[of i locs "?d (unat i)"] ui "1.prems"(1,3) by simp
    show ?thesis
    proof (cases "?d (unat i) \<in> set (map ?d [0..<unat i])")
      case coll: True
      then have "drawLocation k ts s locs i = None"
        using taken di by (simp add: drawLocation_stuck)
      then have none: "placeMines k ts s n i locs = None"
        by (subst placeMines.simps) (simp add: True)
      have "\<not> distinct (map ?d [0..<unat n])"
      proof
        assume dist: "distinct (map ?d [0..<unat n])"
        from coll obtain j where j: "j < unat i" "?d j = ?d (unat i)" by auto
        from dist have "inj_on ?d {0..<unat n}" by (simp add: distinct_map)
        with j ui have "j = unat i" by (auto simp: inj_on_def)
        with j show False by simp
      qed
      with none show ?thesis by simp
    next
      case free: False
      then have dl: "drawLocation k ts s locs i = Some (?d (unat i))"
        using taken di drawLocation_free[of locs k ts s i] by simp
      have step: "placeMines k ts s n i locs
                    = placeMines k ts s n (i + 1) (locs[unat i := ?d (unat i)])"
        by (subst placeMines.simps) (simp add: True dl)
      have len': "length (locs[unat i := ?d (unat i)]) = unat n"
        using "1.prems"(1) by simp
      have le': "i + 1 \<le> n" using ui by (simp add: word_le_nat_alt suc)
      have pre': "take (unat (i + 1)) (locs[unat i := ?d (unat i)])
                    = map ?d [0..<unat (i + 1)]"
        using "1.prems"(1,3) ui by (simp add: suc take_Suc_conv_app_nth)
      have dist': "distinct (map ?d [0..<unat (i + 1)])"
        using "1.prems"(4) free by (simp add: suc)
      from "1.IH"[OF True dl len' le' pre' dist'] step show ?thesis by simp
    qed
  next
    case False
    with "1.prems"(2) have eq: "i = n" by simp
    then have "locs = map ?d [0..<unat n]" using "1.prems"(1,3) by simp
    with "1.prems"(4) eq False show ?thesis by (subst placeMines.simps) simp
  qed
qed

lemma placeMines_from_start:
  "placeMines k ts s n 0 (replicate (unat n) 0) =
     (if distinct (map (drawn k ts s) [0..<unat n])
      then Some (map (drawn k ts s) [0..<unat n]) else None)"
  by (rule placeMines_result) simp_all

lemma drawn_on_board: "drawn k ts s j < 25"
proof -
  have "unat (k ts s (of_nat j) mod 25) < 25" by (simp add: unat_mod)
  moreover from this have "unat (k ts s (of_nat j) mod 25) < 2 ^ 8" by simp
  ultimately have "unat (drawn k ts s j) < 25"
    by (simp add: drawn_def unsigned_ucast_eq take_bit_nat_eq_self)
  then show ?thesis by (simp add: word_less_nat_alt)
qed

lemma drawn_sample:
  "drawn keccak_sample 1700000001 alice 0 = 24"
  "drawn keccak_sample 1700000001 alice (Suc 0) = 10"
  "drawn keccak_sample 1700000001 alice (Suc (Suc 0)) = 19"
  "drawn keccak_sample 1700000008 alice 0 = 13"
  "drawn keccak_sample 1700000008 alice (Suc 0) = 13"
  by (simp_all add: drawn_def keccak_sample_def)

lemma upt_small: "[0..<2] = [0, Suc 0]" "[0..<3] = [0, Suc 0, Suc (Suc 0)]"
  by (simp_all add: upt_rec)

lemma startGame_valid:
  assumes "msg_value > 0" and "1 \<le> numberOfMines" and "numberOfMines \<le> 24"
    and "\<not> isActive (games st msg_sender)"
  shows "startGame keccak timestamp msg_sender msg_value numberOfMines st =
     (if distinct (map (drawn keccak timestamp msg_sender) [0..<unat numberOfMines]) then
        Some (and_then (checked_add (sharedPoolBalance st) msg_value) (\<lambda>pool.
               Inr (st\<lparr>games := (games st)(msg_sender :=
                          \<lparr>player = msg_sender, betAmount = msg_value,
                           totalMines = numberOfMines, revealedSafeTiles = 0,
                           revealedTiles = replicate 25 False,
                           mineLocations =
                             map (drawn keccak timestamp msg_sender) [0..<unat numberOfMines],
                           isActive = True\<rparr>),
                        sharedPoolBalance := pool,
                        emitted := GameStarted msg_sender msg_value numberOfMines # emitted st\<rparr>)))
      else None)"
  using assms by (simp add: startGame_def placeMines_from_start)

lemma startGame_sample:
  "startGame keccak_sample 1700000001 alice 100 3 deployed = Some (Inr threeMines)"
proof -
  have "startGame keccak_sample 1700000001 alice 100 3 deployed =
     (if distinct (map (drawn keccak_sample 1700000001 alice) [0..<unat (3 :: uint8)]) then
        Some (and_then (checked_add (sharedPoolBalance deployed) 100) (\<lambda>pool.
               Inr (deployed\<lparr>games := (games deployed)(alice :=
                          \<lparr>player = alice, betAmount = 100,
                           totalMines = 3, revealedSafeTiles = 0,
                           revealedTiles = replicate 25 False,
                           mineLocations =
                             map (drawn keccak_sample 1700000001 alice) [0..<unat (3 :: uint8)],
                           isActive = True\<rparr>),
                        sharedPoolBalance := pool,
                        emitted := GameStarted alice 100 3 # emitted deployed\<rparr>)))
      else None)"
    by (rule startGame_valid) (simp_all add: deployed_def no_game_def)
  then show ?thesis
    by (simp add: upt_small drawn_sample threeMines_def deployed_def checked_add_def and_then_def)
qed

lemma startGame_Inr:
  assumes "startGame keccak timestamp msg_sender msg_value numberOfMines st = Some (Inr st')"
  shows "msg_value > 0" and "1 \<le> numberOfMines" and "numberOfMines \<le> 24"
    and "\<not> isActive (games st msg_sender)"
    and "distinct (map (drawn keccak timestamp msg_sender) [0..<unat numberOfMines])"
    and "games st' = (games st)(msg_sender :=
           \<lparr>player = msg_sender, betAmount = msg_value, totalMines = numberOfMines,
            revealedSafeTiles = 0, revealedTiles = replicate 25 False,
            mineLocations = map (drawn keccak timestamp msg_sender) [0..<unat numberOfMines],
            isActive = True\<rparr>)"
    and "unat (sharedPoolBalance st') = unat (sharedPoolBalance st) + unat msg_value"
    and "transfers st' = transfers st"
    and "emitted st' = GameStarted msg_sender msg_value numberOfMines # emitted st"
proof -
  from assms show v: "msg_value > 0" and n1: "1 \<le> numberOfMines"
    and n24: "numberOfMines \<le> 24" and na: "\<not> isActive (games st msg_sender)"
    by (auto simp: startGame_def split: if_splits)
  note eq = assms[unfolded startGame_valid[OF v n1 n24 na]]
  from eq show d: "distinct (map (drawn keccak timestamp msg_sender) [0..<unat numberOfMines])"
    by (simp split: if_splits)
  from eq d obtain pool where
    pool: "checked_add (sharedPoolBalance st) msg_value = Inr pool" and
    st': "st' = st\<lparr>games := (games st)(msg_sender :=
                          \<lparr>player = msg_sender, betAmount = msg_value,
                           totalMines = numberOfMines, revealedSafeTiles = 0,
                           revealedTiles = replicate 25 False,
                           mineLocations =
                             map (drawn keccak timestamp msg_sender) [0..<unat numberOfMines],
                           isActive = True\<rparr>),
                        sharedPoolBalance := pool,
                        emitted := GameStarted msg_sender msg_value numberOfMines # emitted st\<rparr>"
    by (auto simp: and_then_Inr)
  from st' show "games st' = (games st)(msg_sender :=
           \<lparr>player = msg_sender, betAmount = msg_value, totalMines = numberOfMines,
            revealedSafeTiles = 0, revealedTiles = replicate 25 False,
            mineLocations = map (drawn keccak timestamp msg_sender) [0..<unat numberOfMines],
            isActive = True\<rparr>)"
    by simp
  from st' pool show "unat (sharedPoolBalance st') = unat (sharedPoolBalance st) + unat msg_value"
    by (simp add: checked_add_unat)
  from st' show "transfers st' = transfers st"
    and "emitted st' = GameStarted msg_sender msg_value numberOfMines # emitted st"
    by simp_all
qed

section \<open>Starting a game\<close>

text \<open>
  C2. The specification expects the rejection sampling of \<open>startGame\<close> to end for every
  valid call. Each round of the \<open>do ... while\<close> loop hashes the same three values
  \<open>(block.timestamp, msg.sender, i)\<close>, so a retry draws the value that was just rejected:
  as soon as the draw for one slot repeats the draw of an earlier slot the loop can never
  leave, and the call does not return (on chain it burns its gas and is rolled back).
  The call returns exactly when the first \<open>numberOfMines\<close> draws are pairwise distinct
  (\<open>startGame_valid\<close>). The witness is a transaction whose digests for slots 0 and 1 are
  both 13 modulo 25.
\<close>

theorem startGame_never_returns_on_repeated_draw:
  assumes "msg_value > 0" and "1 \<le> numberOfMines" and "numberOfMines \<le> 24"
    and "\<not> isActive (games st msg_sender)"
    and "\<not> distinct (map (drawn keccak timestamp msg_sender) [0..<unat numberOfMines])"
  shows "startGame keccak timestamp msg_sender msg_value numberOfMines st = None"
  using assms(5) by (simp add: startGame_valid[OF assms(1-4)])

theorem startGame_never_returns_on_repeated_draw_witness:
  "(100 :: uint256) > 0 \<and> (1 :: uint8) \<le> 2 \<and> (2 :: uint8) \<le> 24 \<and>
   \<not> isActive (games deployed alice) \<and>
   drawn keccak_sample 1700000008 alice 0 = 13 \<and>
   drawn keccak_sample 1700000008 alice 1 = 13 \<and>
   startGame keccak_sample 1700000008 alice 100 2 deployed = None"
  using startGame_never_returns_on_repeated_draw
          [of 100 2 deployed alice keccak_sample 1700000008]
  by (simp add: deployed_def no_game_def upt_small drawn_sample)

text \<open>
  What a start call that returns leaves behind.
\<close>

lemma startGame_post_state_of_return:
  assumes "startGame keccak timestamp msg_sender msg_value numberOfMines st = Some (Inr st')"
  shows "isActive (games st' msg_sender) \<and>
         revealedSafeTiles (games st' msg_sender) = 0 \<and>
         revealedTiles (games st' msg_sender) = replicate 25 False \<and>
         totalMines (games st' msg_sender) = numberOfMines \<and>
         length (mineLocations (games st' msg_sender)) = unat numberOfMines \<and>
         distinct (mineLocations (games st' msg_sender)) \<and>
         (\<forall>x \<in> set (mineLocations (games st' msg_sender)). x < 25) \<and>
         betAmount (games st' msg_sender) = msg_value \<and>
         player (games st' msg_sender) = msg_sender \<and>
         unat (sharedPoolBalance st') = unat (sharedPoolBalance st) + unat msg_value \<and>
         (\<forall>p. p \<noteq> msg_sender \<longrightarrow> games st' p = games st p)"
  using startGame_Inr(5,7)[OF assms]
  by (auto simp: startGame_Inr(6)[OF assms] drawn_on_board)

text \<open>
  C4. The specification promises the post-state for every valid start call: the caller's
  game active, no safe tile counted, all 25 reveal flags false, \<open>mineLocations\<close> holding
  exactly \<open>totalMines\<close> pairwise distinct values in \<open>[0, 25)\<close>, \<open>betAmount\<close> the stake, the
  pool grown by exactly the stake. The contract delivers it, returning, for every valid call
  whose first \<open>numberOfMines\<close> draws are pairwise distinct (and whose stake fits into the
  pool's \<open>uint256\<close>, as every amount of real ether does). For a valid call that repeats a
  draw the placement loop of C2 never ends: the call does not return and no game is
  started. At timestamp 1700000001 \<open>alice\<close>'s start on three mines reaches the promised
  state; at 1700000008 her start on two mines never returns.
\<close>

theorem startGame_reaches_post_state:
  assumes "msg_value > 0" and "1 \<le> numberOfMines" and "numberOfMines \<le> 24"
    and "\<not> isActive (games st msg_sender)"
  shows
    "(distinct (map (drawn keccak timestamp msg_sender) [0..<unat numberOfMines]) \<and>
      unat (sharedPoolBalance st) + unat msg_value < 2 ^ 256 \<longrightarrow>
        (\<exists>st'. startGame keccak timestamp msg_sender msg_value numberOfMines st
                 = Some (Inr st') \<and>
           isActive (games st' msg_sender) \<and>
           revealedSafeTiles (games st' msg_sender) = 0 \<and>
           revealedTiles (games st' msg_sender) = replicate 25 False \<and>
           totalMines (games st' msg_sender) = numberOfMines \<and>
           length (mineLocations (games st' msg_sender)) = unat numberOfMines \<and>
           distinct (mineLocations (games st' msg_sender)) \<and>
           (\<forall>x \<in> set (mineLocations (games st' msg_sender)). x < 25) \<and>
           betAmount (games st' msg_sender) = msg_value \<and>
           player (games st' msg_sender) = msg_sender \<and>
           unat (sharedPoolBalance st') = unat (sharedPoolBalance st) + unat msg_value \<and>
           (\<forall>p. p \<noteq> msg_sender \<longrightarrow> games st' p = games st p))) \<and>
     (\<not> distinct (map (drawn keccak timestamp msg_sender) [0..<unat numberOfMines]) \<longrightarrow>
        startGame keccak timestamp msg_sender msg_value numberOfMines st = None)"
proof (intro conjI impI)
  assume a: "distinct (map (drawn keccak timestamp msg_sender) [0..<unat numberOfMines]) \<and>
             unat (sharedPoolBalance st) + unat msg_value < 2 ^ 256"
  then have add: "checked_add (sharedPoolBalance st) msg_value
                    = Inr (sharedPoolBalance st + msg_value)"
    by (simp add: checked_add_ok)
  have "\<exists>st'. startGame keccak timestamp msg_sender msg_value numberOfMines st
                 = Some (Inr st')"
    using a by (simp add: startGame_valid[OF assms] add and_then_def)
  then obtain st' where
    ret: "startGame keccak timestamp msg_sender msg_value numberOfMines st = Some (Inr st')"
    by blast
  from startGame_post_state_of_return[OF ret] ret
  show "\<exists>st'. startGame keccak timestamp msg_sender msg_value numberOfMines st
                 = Some (Inr st') \<and>
           isActive (games st' msg_sender) \<and>
           revealedSafeTiles (games st' msg_sender) = 0 \<and>
           revealedTiles (games st' msg_sender) = replicate 25 False \<and>
           totalMines (games st' msg_sender) = numberOfMines \<and>
           length (mineLocations (games st' msg_sender)) = unat numberOfMines \<and>
           distinct (mineLocations (games st' msg_sender)) \<and>
           (\<forall>x \<in> set (mineLocations (games st' msg_sender)). x < 25) \<and>
           betAmount (games st' msg_sender) = msg_value \<and>
           player (games st' msg_sender) = msg_sender \<and>
           unat (sharedPoolBalance st') = unat (sharedPoolBalance st) + unat msg_value \<and>
           (\<forall>p. p \<noteq> msg_sender \<longrightarrow> games st' p = games st p)"
    by blast
next
  assume "\<not> distinct (map (drawn keccak timestamp msg_sender) [0..<unat numberOfMines])"
  then show "startGame keccak timestamp msg_sender msg_value numberOfMines st = None"
    by (simp add: startGame_valid[OF assms])
qed

theorem startGame_reaches_post_state_witness:
  "(100 :: uint256) > 0 \<and> (1 :: uint8) \<le> 3 \<and> (3 :: uint8) \<le> 24 \<and> (2 :: uint8) \<le> 24 \<and>
   \<not> isActive (games deployed alice) \<and> sharedPoolBalance deployed = 0 \<and>
   map (drawn keccak_sample 1700000001 alice) [0..<3] = [24, 10, 19] \<and>
   startGame keccak_sample 1700000001 alice 100 3 deployed = Some (Inr threeMines) \<and>
   isActive (games threeMines alice) \<and>
   revealedSafeTiles (games threeMines alice) = 0 \<and>
   revealedTiles (games threeMines alice) = replicate 25 False \<and>
   mineLocations (games threeMines alice) = [24, 10, 19] \<and>
   betAmount (games threeMines alice) = 100 \<and>
   sharedPoolBalance threeMines = 100 \<and>
   map (drawn keccak_sample 1700000008 alice) [0..<2] = [13, 13] \<and>
   startGame keccak_sample 1700000008 alice 100 2 deployed = None"
proof -
  have v: "(100 :: uint256) > 0" and n1: "(1 :: uint8) \<le> 3" and n3: "(3 :: uint8) \<le> 24"
    and m1: "(1 :: uint8) \<le> 2" and m2: "(2 :: uint8) \<le> 24"
    by simp_all
  have na: "\<not> isActive (games deployed alice)" and p0: "sharedPoolBalance deployed = 0"
    by (simp_all add: deployed_def no_game_def)
  have d3: "map (drawn keccak_sample 1700000001 alice) [0..<3] = [24, 10, 19]"
    and d2: "map (drawn keccak_sample 1700000008 alice) [0..<2] = [13, 13]"
    by (simp_all add: upt_small drawn_sample)
  have u: "unat (3 :: uint8) = 3" "unat (2 :: uint8) = 2" by simp_all
  have ok: "distinct (map (drawn keccak_sample 1700000001 alice) [0..<unat (3 :: uint8)]) \<and>
            unat (sharedPoolBalance deployed) + unat (100 :: uint256) < 2 ^ 256"
    by (simp add: u d3 p0)
  have rep: "\<not> distinct (map (drawn keccak_sample 1700000008 alice) [0..<unat (2 :: uint8)])"
    by (simp add: u d2)
  from startGame_reaches_post_state
         [OF v n1 n3 na, where keccak = keccak_sample and timestamp = 1700000001,
          THEN conjunct1, rule_format, OF ok]
  obtain st' where
    r: "startGame keccak_sample 1700000001 alice 100 3 deployed = Some (Inr st')"
    and act: "isActive (games st' alice)"
    by blast
  from r have st': "st' = threeMines" by (simp add: startGame_sample)
  from startGame_reaches_post_state
         [OF v m1 m2 na, where keccak = keccak_sample and timestamp = 1700000008,
          THEN conjunct2, rule_format, OF rep]
  have none: "startGame keccak_sample 1700000008 alice 100 2 deployed = None" .
  have t: "revealedSafeTiles (games threeMines alice) = 0"
    "revealedTiles (games threeMines alice) = replicate 25 False"
    "mineLocations (games threeMines alice) = [24, 10, 19]"
    "betAmount (games threeMines alice) = 100"
    "sharedPoolBalance threeMines = 100"
    by (simp_all add: threeMines_def)
  from v n1 n3 m2 na p0 d3 d2 r act none t show ?thesis by (simp add: st')
qed

section \<open>Rejected calls\<close>

text \<open>
  C5. Every violated precondition of \<open>startGame\<close>, \<open>revealTile\<close> and \<open>cashOut\<close> aborts the
  call with the reason string of the first \<open>require\<close> that fails, and an aborted call
  commits nothing: the state after it is the state before it. In particular a second
  reveal of a tile that was revealed successfully is rejected: with "Tile already
  revealed" when the tile was safe, with "No active game" when it was a mine and ended
  the game.
\<close>

theorem violated_preconditions_rejected:
  "(\<not> msg_value > 0 \<longrightarrow>
      startGame keccak timestamp msg_sender msg_value numberOfMines st
        = Some (Inl (Revert ''Bet amount must be greater than 0''))) \<and>
   (msg_value > 0 \<and> \<not> (1 \<le> numberOfMines \<and> numberOfMines \<le> 24) \<longrightarrow>
      startGame keccak timestamp msg_sender msg_value numberOfMines st
        = Some (Inl (Revert ''Mines must be between 1 and 24''))) \<and>
   (msg_value > 0 \<and> 1 \<le> numberOfMines \<and> numberOfMines \<le> 24
      \<and> isActive (games st msg_sender) \<longrightarrow>
      startGame keccak timestamp msg_sender msg_value numberOfMines st
        = Some (Inl (Revert ''Player already has an active game''))) \<and>
   (\<not> tileIndex < 25 \<longrightarrow>
      revealTile msg_sender tileIndex st = Inl (Revert ''Invalid tile index'')) \<and>
   (tileIndex < 25 \<and> \<not> isActive (games st msg_sender) \<longrightarrow>
      revealTile msg_sender tileIndex st = Inl (Revert ''No active game'')) \<and>
   (tileIndex < 25 \<and> isActive (games st msg_sender)
      \<and> unat tileIndex < length (revealedTiles (games st msg_sender))
      \<and> revealedTiles (games st msg_sender) ! unat tileIndex \<longrightarrow>
      revealTile msg_sender tileIndex st = Inl (Revert ''Tile already revealed'')) \<and>
   (\<not> isActive (games st msg_sender) \<longrightarrow>
      cashOut accepts msg_sender st = Inl (Revert ''No active game'')) \<and>
   (isActive (games st msg_sender) \<and> revealedSafeTiles (games st msg_sender) = 0 \<longrightarrow>
      cashOut accepts msg_sender st = Inl (Revert ''Must reveal at least one safe tile'')) \<and>
   commit st (Inl e) = st \<and>
   (revealTile msg_sender tileIndex st = Inr st' \<longrightarrow>
      (revealTile msg_sender tileIndex st' = Inl (Revert ''Tile already revealed'') \<or>
       revealTile msg_sender tileIndex st' = Inl (Revert ''No active game'')) \<and>
      commit st' (revealTile msg_sender tileIndex st') = st')"
proof (intro conjI impI)
  assume first: "revealTile msg_sender tileIndex st = Inr st'"
  note f = revealTile_Inr[OF first]
  have shown: "unat tileIndex < length (revealedTiles (games st' msg_sender))"
    "revealedTiles (games st' msg_sender) ! unat tileIndex"
    using f(3) by (simp_all add: f(5))
  have again: "revealTile msg_sender tileIndex st' =
      (if isActive (games st' msg_sender) then Inl (Revert ''Tile already revealed'')
       else Inl (Revert ''No active game''))"
    using f(1) shown by (simp add: revealTile_def)
  show "revealTile msg_sender tileIndex st' = Inl (Revert ''Tile already revealed'') \<or>
        revealTile msg_sender tileIndex st' = Inl (Revert ''No active game'')"
    by (simp add: again)
  show "commit st' (revealTile msg_sender tileIndex st') = st'"
    by (simp add: again commit_def)
qed (simp_all add: startGame_def revealTile_def cashOut_def commit_def Let_def)

text \<open>The sample game: a safe tile and a mine.\<close>

lemma reveal_sample_safe:
  "revealTile alice 0 threeMines =
     Inr (threeMines\<lparr>games := (games threeMines)(alice := (games threeMines alice)
              \<lparr>revealedTiles := (replicate 25 False)[0 := True], revealedSafeTiles := 1\<rparr>),
            emitted := [TileRevealed alice 0 False, GameStarted alice 100 3]\<rparr>)"
proof -
  have "revealTile alice 0 threeMines =
     Inr (if (0 :: uint8) \<in> set (mineLocations (games threeMines alice))
          then threeMines\<lparr>games := (games threeMines)(alice := (games threeMines alice)
                     \<lparr>revealedTiles :=
                        (revealedTiles (games threeMines alice))[unat (0 :: uint8) := True],
                      isActive := False\<rparr>),
                  emitted := GameLost alice
                     # TileRevealed alice 0 True # emitted threeMines\<rparr>
          else threeMines\<lparr>games := (games threeMines)(alice := (games threeMines alice)
                     \<lparr>revealedTiles :=
                        (revealedTiles (games threeMines alice))[unat (0 :: uint8) := True],
                      revealedSafeTiles := revealedSafeTiles (games threeMines alice) + 1\<rparr>),
                  emitted := TileRevealed alice 0 False # emitted threeMines\<rparr>)"
    by (rule revealTile_effect[OF counter_inv_threeMines]) (simp_all add: threeMines_def)
  then show ?thesis by (simp add: threeMines_def)
qed

lemma reveal_sample_mine:
  "revealTile alice 24 threeMines =
     Inr (threeMines\<lparr>games := (games threeMines)(alice := (games threeMines alice)
              \<lparr>revealedTiles := (replicate 25 False)[24 := True], isActive := False\<rparr>),
            emitted := [GameLost alice, TileRevealed alice 24 True, GameStarted alice 100 3]\<rparr>)"
proof -
  have "revealTile alice 24 threeMines =
     Inr (if (24 :: uint8) \<in> set (mineLocations (games threeMines alice))
          then threeMines\<lparr>games := (games threeMines)(alice := (games threeMines alice)
                     \<lparr>revealedTiles :=
                        (revealedTiles (games threeMines alice))[unat (24 :: uint8) := True],
                      isActive := False\<rparr>),
                  emitted := GameLost alice
                     # TileRevealed alice 24 True # emitted threeMines\<rparr>
          else threeMines\<lparr>games := (games threeMines)(alice := (games threeMines alice)
                     \<lparr>revealedTiles :=
                        (revealedTiles (games threeMines alice))[unat (24 :: uint8) := True],
                      revealedSafeTiles := revealedSafeTiles (games threeMines alice) + 1\<rparr>),
                  emitted := TileRevealed alice 24 False # emitted threeMines\<rparr>)"
    by (rule revealTile_effect[OF counter_inv_threeMines]) (simp_all add: threeMines_def)
  then show ?thesis by (simp add: threeMines_def)
qed

lemma threeMines_ready:
  "counter_inv (games threeMines alice) \<and> isActive (games threeMines alice) \<and>
   (0 :: uint8) < 25 \<and> \<not> revealedTiles (games threeMines alice) ! unat (0 :: uint8)"
  "counter_inv (games threeMines alice) \<and> isActive (games threeMines alice) \<and>
   (24 :: uint8) < 25 \<and> \<not> revealedTiles (games threeMines alice) ! unat (24 :: uint8)"
  by (simp_all add: counter_inv_threeMines) (simp_all add: threeMines_def)

theorem violated_preconditions_rejected_witness:
  "startGame keccak_sample 1700000001 alice 0 3 deployed
     = Some (Inl (Revert ''Bet amount must be greater than 0'')) \<and>
   startGame keccak_sample 1700000001 alice 100 25 deployed
     = Some (Inl (Revert ''Mines must be between 1 and 24'')) \<and>
   startGame keccak_sample 1700000001 alice 100 3 threeMines
     = Some (Inl (Revert ''Player already has an active game'')) \<and>
   revealTile alice 25 threeMines = Inl (Revert ''Invalid tile index'') \<and>
   revealTile 7 0 threeMines = Inl (Revert ''No active game'') \<and>
   cashOut (\<lambda>_ _. True) 7 threeMines = Inl (Revert ''No active game'') \<and>
   cashOut (\<lambda>_ _. True) alice threeMines
     = Inl (Revert ''Must reveal at least one safe tile'') \<and>
   commit threeMines (cashOut (\<lambda>_ _. True) alice threeMines) = threeMines \<and>
   revealTile alice 0 (commit threeMines (revealTile alice 0 threeMines))
     = Inl (Revert ''Tile already revealed'') \<and>
   revealTile alice 24 (commit threeMines (revealTile alice 24 threeMines))
     = Inl (Revert ''No active game'')"
proof -
  note t = violated_preconditions_rejected
  have seven: "alice \<noteq> 7" by (simp add: alice_def)
  have a: "startGame keccak_sample 1700000001 alice 0 3 deployed
     = Some (Inl (Revert ''Bet amount must be greater than 0''))"
    using t[where msg_value = 0 and keccak = keccak_sample and timestamp = 1700000001
              and msg_sender = alice and numberOfMines = 3 and st = deployed]
    by simp
  have b: "startGame keccak_sample 1700000001 alice 100 25 deployed
     = Some (Inl (Revert ''Mines must be between 1 and 24''))"
    using t[where msg_value = 100 and keccak = keccak_sample and timestamp = 1700000001
              and msg_sender = alice and numberOfMines = 25 and st = deployed]
    by simp
  have c: "startGame keccak_sample 1700000001 alice 100 3 threeMines
     = Some (Inl (Revert ''Player already has an active game''))"
    using t[where msg_value = 100 and keccak = keccak_sample and timestamp = 1700000001
              and msg_sender = alice and numberOfMines = 3 and st = threeMines]
    by (simp add: threeMines_def)
  have d: "revealTile alice 25 threeMines = Inl (Revert ''Invalid tile index'')"
    using t[where msg_sender = alice and tileIndex = 25 and st = threeMines] by simp
  have e: "revealTile 7 0 threeMines = Inl (Revert ''No active game'')"
    using t[where msg_sender = 7 and tileIndex = 0 and st = threeMines] seven
    by (simp add: threeMines_def deployed_def no_game_def)
  have f: "cashOut (\<lambda>_ _. True) 7 threeMines = Inl (Revert ''No active game'')"
    using t[where msg_sender = 7 and st = threeMines and accepts = "\<lambda>_ _. True"] seven
    by (simp add: threeMines_def deployed_def no_game_def)
  have g: "cashOut (\<lambda>_ _. True) alice threeMines
     = Inl (Revert ''Must reveal at least one safe tile'')"
    using t[where msg_sender = alice and st = threeMines and accepts = "\<lambda>_ _. True"]
    by (simp add: threeMines_def)
  have h: "commit threeMines (cashOut (\<lambda>_ _. True) alice threeMines) = threeMines"
    using t[where st = threeMines and e = "Revert ''Must reveal at least one safe tile''"]
    by (simp add: g)
  have x0: "commit threeMines (revealTile alice 0 threeMines) =
      threeMines\<lparr>games := (games threeMines)(alice := (games threeMines alice)
              \<lparr>revealedTiles := (replicate 25 False)[0 := True], revealedSafeTiles := 1\<rparr>),
            emitted := [TileRevealed alice 0 False, GameStarted alice 100 3]\<rparr>"
    by (simp add: reveal_sample_safe commit_def)
  have x24: "commit threeMines (revealTile alice 24 threeMines) =
      threeMines\<lparr>games := (games threeMines)(alice := (games threeMines alice)
              \<lparr>revealedTiles := (replicate 25 False)[24 := True], isActive := False\<rparr>),
            emitted := [GameLost alice, TileRevealed alice 24 True, GameStarted alice 100 3]\<rparr>"
    by (simp add: reveal_sample_mine commit_def)
  have i: "revealTile alice 0 (commit threeMines (revealTile alice 0 threeMines))
     = Inl (Revert ''Tile already revealed'')"
    unfolding x0
    using t[where msg_sender = alice and tileIndex = 0 and st = threeMines,
            THEN conjunct2, THEN conjunct2, THEN conjunct2, THEN conjunct2, THEN conjunct2,
            THEN conjunct2, THEN conjunct2, THEN conjunct2, THEN conjunct2, rule_format,
            OF reveal_sample_safe]
    by (simp add: revealTile_def threeMines_def)
  have j: "revealTile alice 24 (commit threeMines (revealTile alice 24 threeMines))
     = Inl (Revert ''No active game'')"
    unfolding x24
    using t[where msg_sender = alice and tileIndex = 24 and st = threeMines,
            THEN conjunct2, THEN conjunct2, THEN conjunct2, THEN conjunct2, THEN conjunct2,
            THEN conjunct2, THEN conjunct2, THEN conjunct2, THEN conjunct2, rule_format,
            OF reveal_sample_mine]
    by (simp add: revealTile_def threeMines_def)
  from a b c d e f g h i j show ?thesis by simp
qed

section \<open>The counter of safe tiles\<close>

lemma revealTile_keeps_counter_inv:
  assumes inv: "counter_inv (games st msg_sender)"
    and act: "isActive (games st msg_sender)"
    and t: "tileIndex < 25"
    and fresh: "\<not> revealedTiles (games st msg_sender) ! unat tileIndex"
  shows "\<exists>st'. revealTile msg_sender tileIndex st = Inr st' \<and>
           counter_inv (games st' msg_sender) \<and>
           revealedTiles (games st' msg_sender)
             = (revealedTiles (games st msg_sender))[unat tileIndex := True] \<and>
           (if tileIndex \<in> set (mineLocations (games st msg_sender))
            then revealedSafeTiles (games st' msg_sender)
                   = revealedSafeTiles (games st msg_sender) \<and>
                 safeRevealed (games st' msg_sender) = safeRevealed (games st msg_sender)
            else unat (revealedSafeTiles (games st' msg_sender))
                   = unat (revealedSafeTiles (games st msg_sender)) + 1 \<and>
                 safeRevealed (games st' msg_sender)
                   = safeRevealed (games st msg_sender) + 1)"
proof -
  let ?g = "games st msg_sender"
  let ?g' = "?g\<lparr>revealedTiles := (revealedTiles ?g)[unat tileIndex := True]\<rparr>"
  from inv have len: "length (revealedTiles ?g) = 25"
    and mines: "length (mineLocations ?g) = unat (totalMines ?g)"
    and cnt: "unat (revealedSafeTiles ?g) = safeRevealed ?g"
    by (simp_all add: counter_inv_def well_formed_def)
  note eff = revealTile_effect[OF inv act t fresh]
  note cnt' = safeRevealed_reveal[OF len t fresh]
  note inc = unat_inc_counter[OF inv]
  show ?thesis
  proof (cases "tileIndex \<in> set (mineLocations ?g)")
    case True
    have sr: "safeRevealed (?g'\<lparr>isActive := False\<rparr>) = safeRevealed ?g"
      using cnt' True by (simp add: safeRevealed_frame)
    have "counter_inv (?g'\<lparr>isActive := False\<rparr>)"
      using len mines cnt sr by (simp add: counter_inv_def well_formed_def)
    with True sr show ?thesis by (simp add: eff)
  next
    case False
    have sr: "safeRevealed (?g'\<lparr>revealedSafeTiles := revealedSafeTiles ?g + 1\<rparr>)
                = safeRevealed ?g + 1"
      using cnt' False by (simp add: safeRevealed_frame)
    have "counter_inv (?g'\<lparr>revealedSafeTiles := revealedSafeTiles ?g + 1\<rparr>)"
      using len mines cnt sr inc by (simp add: counter_inv_def well_formed_def)
    with False sr inc show ?thesis by (simp add: eff)
  qed
qed

text \<open>
  C6. \<open>revealedSafeTiles\<close> equals the number of indices in \<open>[0, 25)\<close> whose reveal flag is
  set and that are not in \<open>mineLocations\<close> (\<open>counter_inv\<close>, together with the shape of the
  two arrays). The game a returning \<open>startGame\<close> creates satisfies it, with count 0. Every
  reveal on an active game that satisfies it (in-range tile, not yet revealed) returns and
  preserves it: a safe tile sets one flag and adds exactly one to the counter and to the
  count; a mine sets the flag and leaves both unchanged.
\<close>

theorem counter_invariant:
  "(startGame keccak timestamp msg_sender msg_value numberOfMines st = Some (Inr st') \<longrightarrow>
      counter_inv (games st' msg_sender) \<and> safeRevealed (games st' msg_sender) = 0) \<and>
   (counter_inv (games st msg_sender) \<and> isActive (games st msg_sender) \<and> tileIndex < 25 \<and>
    \<not> revealedTiles (games st msg_sender) ! unat tileIndex \<longrightarrow>
      (\<exists>st''. revealTile msg_sender tileIndex st = Inr st'' \<and>
           counter_inv (games st'' msg_sender) \<and>
           revealedTiles (games st'' msg_sender)
             = (revealedTiles (games st msg_sender))[unat tileIndex := True] \<and>
           (if tileIndex \<in> set (mineLocations (games st msg_sender))
            then revealedSafeTiles (games st'' msg_sender)
                   = revealedSafeTiles (games st msg_sender) \<and>
                 safeRevealed (games st'' msg_sender) = safeRevealed (games st msg_sender)
            else unat (revealedSafeTiles (games st'' msg_sender))
                   = unat (revealedSafeTiles (games st msg_sender)) + 1 \<and>
                 safeRevealed (games st'' msg_sender)
                   = safeRevealed (games st msg_sender) + 1)))"
proof (intro conjI impI)
  assume start: "startGame keccak timestamp msg_sender msg_value numberOfMines st
                   = Some (Inr st')"
  show "counter_inv (games st' msg_sender)"
    by (simp add: startGame_Inr(6)[OF start] counter_inv_def well_formed_def safeRevealed_none)
  show "safeRevealed (games st' msg_sender) = 0"
    by (simp add: startGame_Inr(6)[OF start] safeRevealed_none)
next
  assume "counter_inv (games st msg_sender) \<and> isActive (games st msg_sender) \<and>
          tileIndex < 25 \<and> \<not> revealedTiles (games st msg_sender) ! unat tileIndex"
  then show "\<exists>st''. revealTile msg_sender tileIndex st = Inr st'' \<and>
           counter_inv (games st'' msg_sender) \<and>
           revealedTiles (games st'' msg_sender)
             = (revealedTiles (games st msg_sender))[unat tileIndex := True] \<and>
           (if tileIndex \<in> set (mineLocations (games st msg_sender))
            then revealedSafeTiles (games st'' msg_sender)
                   = revealedSafeTiles (games st msg_sender) \<and>
                 safeRevealed (games st'' msg_sender) = safeRevealed (games st msg_sender)
            else unat (revealedSafeTiles (games st'' msg_sender))
                   = unat (revealedSafeTiles (games st msg_sender)) + 1 \<and>
                 safeRevealed (games st'' msg_sender)
                   = safeRevealed (games st msg_sender) + 1)"
    by (simp add: revealTile_keeps_counter_inv)
qed

theorem counter_invariant_witness:
  "startGame keccak_sample 1700000001 alice 100 3 deployed = Some (Inr threeMines) \<and>
   counter_inv (games threeMines alice) \<and>
   isActive (games threeMines alice) \<and>
   mineLocations (games threeMines alice) = [24, 10, 19] \<and>
   safeRevealed (games threeMines alice) = 0 \<and>
   counter_inv (games (commit threeMines (revealTile alice 0 threeMines)) alice) \<and>
   revealedSafeTiles (games (commit threeMines (revealTile alice 0 threeMines)) alice) = 1 \<and>
   safeRevealed (games (commit threeMines (revealTile alice 0 threeMines)) alice) = 1 \<and>
   counter_inv (games (commit threeMines (revealTile alice 24 threeMines)) alice) \<and>
   revealedTiles (games (commit threeMines (revealTile alice 24 threeMines)) alice) ! 24 \<and>
   revealedSafeTiles (games (commit threeMines (revealTile alice 24 threeMines)) alice) = 0 \<and>
   safeRevealed (games (commit threeMines (revealTile alice 24 threeMines)) alice) = 0"
proof -
  have m: "mineLocations (games threeMines alice) = [24, 10, 19]"
    and a: "isActive (games threeMines alice)"
    by (simp_all add: threeMines_def)
  have z: "safeRevealed (games threeMines alice) = 0"
    by (rule safeRevealed_none) (simp add: threeMines_def)
  from counter_invariant
         [where keccak = keccak_sample and timestamp = 1700000001 and msg_sender = alice
            and msg_value = 100 and numberOfMines = 3 and st = deployed and st' = threeMines,
          THEN conjunct1, rule_format, OF startGame_sample]
  have s: "counter_inv (games threeMines alice)" by simp
  from counter_invariant
         [where msg_sender = alice and st = threeMines and tileIndex = 0,
          THEN conjunct2, rule_format, OF threeMines_ready(1)]
  have safe: "counter_inv (games (commit threeMines (revealTile alice 0 threeMines)) alice) \<and>
      safeRevealed (games (commit threeMines (revealTile alice 0 threeMines)) alice) = 1"
    by (auto simp: commit_def m z)
  have safe': "revealedSafeTiles (games (commit threeMines (revealTile alice 0 threeMines)) alice)
                 = 1"
    by (simp add: reveal_sample_safe commit_def)
  from counter_invariant
         [where msg_sender = alice and st = threeMines and tileIndex = 24,
          THEN conjunct2, rule_format, OF threeMines_ready(2)]
  have mine: "counter_inv (games (commit threeMines (revealTile alice 24 threeMines)) alice) \<and>
      safeRevealed (games (commit threeMines (revealTile alice 24 threeMines)) alice) = 0"
    by (auto simp: commit_def m z)
  have mine': "revealedTiles (games (commit threeMines (revealTile alice 24 threeMines)) alice) ! 24 \<and>
      revealedSafeTiles (games (commit threeMines (revealTile alice 24 threeMines)) alice) = 0"
    by (simp add: reveal_sample_mine commit_def) (simp add: threeMines_def)
  from startGame_sample s a m z safe safe' mine mine' show ?thesis by simp
qed

text \<open>
  C7. A reveal changes nothing but the caller's record and the event log. On a mine it
  ends the game (\<open>isActive = false\<close>) and does not increment \<open>revealedSafeTiles\<close>; on a safe
  tile it increments \<open>revealedSafeTiles\<close> by one and leaves the game active. Either way
  \<open>betAmount\<close>, \<open>totalMines\<close>, \<open>mineLocations\<close>, the shared pool balance, the transfers and
  every other player's record stay as they were: a lost stake stays in the pool.
\<close>

theorem revealTile_frame:
  assumes inv: "counter_inv (games st msg_sender)"
    and act: "isActive (games st msg_sender)"
    and t: "tileIndex < 25"
    and fresh: "\<not> revealedTiles (games st msg_sender) ! unat tileIndex"
  shows "\<exists>st'. revealTile msg_sender tileIndex st = Inr st' \<and>
           sharedPoolBalance st' = sharedPoolBalance st \<and>
           transfers st' = transfers st \<and>
           betAmount (games st' msg_sender) = betAmount (games st msg_sender) \<and>
           totalMines (games st' msg_sender) = totalMines (games st msg_sender) \<and>
           mineLocations (games st' msg_sender) = mineLocations (games st msg_sender) \<and>
           player (games st' msg_sender) = player (games st msg_sender) \<and>
           (\<forall>p. p \<noteq> msg_sender \<longrightarrow> games st' p = games st p) \<and>
           (if tileIndex \<in> set (mineLocations (games st msg_sender))
            then \<not> isActive (games st' msg_sender) \<and>
                 revealedSafeTiles (games st' msg_sender)
                   = revealedSafeTiles (games st msg_sender)
            else isActive (games st' msg_sender) \<and>
                 unat (revealedSafeTiles (games st' msg_sender))
                   = unat (revealedSafeTiles (games st msg_sender)) + 1)"
proof (cases "tileIndex \<in> set (mineLocations (games st msg_sender))")
  case True
  then show ?thesis by (simp add: revealTile_effect[OF inv act t fresh])
next
  case False
  then show ?thesis
    using act by (simp add: revealTile_effect[OF inv act t fresh] unat_inc_counter[OF inv])
qed

theorem revealTile_frame_witness:
  "counter_inv (games threeMines alice) \<and> isActive (games threeMines alice) \<and>
   mineLocations (games threeMines alice) = [24, 10, 19] \<and>
   sharedPoolBalance threeMines = 100 \<and>
   sharedPoolBalance (commit threeMines (revealTile alice 24 threeMines)) = 100 \<and>
   \<not> isActive (games (commit threeMines (revealTile alice 24 threeMines)) alice) \<and>
   betAmount (games (commit threeMines (revealTile alice 24 threeMines)) alice) = 100 \<and>
   revealedSafeTiles (games (commit threeMines (revealTile alice 24 threeMines)) alice) = 0 \<and>
   sharedPoolBalance (commit threeMines (revealTile alice 0 threeMines)) = 100 \<and>
   isActive (games (commit threeMines (revealTile alice 0 threeMines)) alice) \<and>
   revealedSafeTiles (games (commit threeMines (revealTile alice 0 threeMines)) alice) = 1"
proof -
  note h = threeMines_ready[THEN conjunct1] threeMines_ready[THEN conjunct2, THEN conjunct1]
    threeMines_ready[THEN conjunct2, THEN conjunct2, THEN conjunct1]
    threeMines_ready[THEN conjunct2, THEN conjunct2, THEN conjunct2]
  have m: "mineLocations (games threeMines alice) = [24, 10, 19]"
    and b: "betAmount (games threeMines alice) = 100"
    and c: "revealedSafeTiles (games threeMines alice) = 0"
    and p: "sharedPoolBalance threeMines = 100"
    by (simp_all add: threeMines_def)
  from revealTile_frame[OF h(1) h(3) h(6) h(8)]
  have mine: "sharedPoolBalance (commit threeMines (revealTile alice 24 threeMines)) = 100 \<and>
   \<not> isActive (games (commit threeMines (revealTile alice 24 threeMines)) alice) \<and>
   betAmount (games (commit threeMines (revealTile alice 24 threeMines)) alice) = 100 \<and>
   revealedSafeTiles (games (commit threeMines (revealTile alice 24 threeMines)) alice) = 0"
    by (auto simp: commit_def m b c p)
  from revealTile_frame[OF h(1) h(3) h(5) h(7)]
  have safe: "sharedPoolBalance (commit threeMines (revealTile alice 0 threeMines)) = 100 \<and>
   isActive (games (commit threeMines (revealTile alice 0 threeMines)) alice)"
    by (auto simp: commit_def m b c p)
  have safe': "revealedSafeTiles (games (commit threeMines (revealTile alice 0 threeMines)) alice)
                 = 1"
    by (simp add: reveal_sample_safe commit_def)
  from h(1) h(3) m p mine safe safe' show ?thesis by simp
qed

end
